theory Spec2Isabelle
  imports Main "HOL-Library.Sublist" "HOL-Library.AList"
begin

section \<open>Python values used by the Elsevier reader\<close>

text \<open>
  The exceptions the code of \<^verbatim>\<open>reader/elsevier.py\<close> can raise. \<open>ReaderError\<close> is the
  only one raised by a \<^verbatim>\<open>raise\<close> statement; the others come from indexing an empty
  list, a missing attribute key, \<^verbatim>\<open>int()\<close> of a non-numeral, an operation on
  \<^verbatim>\<open>None\<close>, \<^verbatim>\<open>''.text\<close> and a local variable read before it is bound.
\<close>

datatype error =
  ReaderError | IndexError | KeyError | ValueError | TypeError | AttributeError
  | UnboundLocalError

text \<open>\<^verbatim>\<open>needle in hay\<close> on strings and bytes: a contiguous occurrence.\<close>

fun py_contains :: "string \<Rightarrow> string \<Rightarrow> bool" where
  "py_contains needle [] = (needle = [])"
| "py_contains needle (c # cs) = (prefix needle (c # cs) \<or> py_contains needle cs)"

text \<open>\<^verbatim>\<open>s.endswith(suf)\<close> and \<^verbatim>\<open>s.startswith(pre)\<close>.\<close>

definition endswith :: "string \<Rightarrow> string \<Rightarrow> bool" where
  "endswith s suf = suffix suf s"

definition startswith :: "string \<Rightarrow> string \<Rightarrow> bool" where
  "startswith s pre = prefix pre s"

text \<open>
  \<^verbatim>\<open>s.split(sep)\<close> for a non-empty separator: scan from the left, cut at every
  occurrence of \<open>sep\<close> and resume behind it. (Python raises on an empty separator; the
  reader only splits at the constants \<^verbatim>\<open>'col'\<close> and \<^verbatim>\<open>'/'\<close>.)
\<close>

function py_split_from :: "string \<Rightarrow> string \<Rightarrow> string \<Rightarrow> string list" where
  "py_split_from sep cur [] = [cur]"
| "py_split_from sep cur (c # cs) =
     (if sep \<noteq> [] \<and> prefix sep (c # cs)
      then cur # py_split_from sep [] (drop (length sep) (c # cs))
      else py_split_from sep (cur @ [c]) cs)"
  by pat_completeness auto
termination
  by (relation "measure (\<lambda>(sep, cur, s). length s)") auto

definition py_split :: "string \<Rightarrow> string \<Rightarrow> string list" where
  "py_split s sep = py_split_from sep [] s"

text \<open>
  \<^verbatim>\<open>int(s)\<close> on a string, for ASCII input: surrounding whitespace is stripped, one
  sign is allowed, and the rest must be decimal digits, single underscores allowed
  between digits (Python 3). Anything else raises \<open>ValueError\<close>.
\<close>

definition is_space :: "char \<Rightarrow> bool" where
  "is_space c = (c \<in> set [CHR '' '', CHR 0x09, CHR 0x0A, CHR 0x0B, CHR 0x0C, CHR 0x0D])"

definition is_digit :: "char \<Rightarrow> bool" where
  "is_digit c = (c \<in> set ''0123456789'')"

definition digit_val :: "char \<Rightarrow> int" where
  "digit_val c = int (of_char c) - 48"

definition dec_value :: "string \<Rightarrow> int" where
  "dec_value ds = foldl (\<lambda>acc c. 10 * acc + digit_val c) 0 ds"

definition py_strip :: "string \<Rightarrow> string" where
  "py_strip s = rev (dropWhile is_space (rev (dropWhile is_space s)))"

fun digits_ok :: "string \<Rightarrow> bool" where
  "digits_ok [] = False"
| "digits_ok [c] = is_digit c"
| "digits_ok (c # d # cs) =
     (is_digit c \<and> (if d = CHR ''_'' then digits_ok cs else digits_ok (d # cs)))"

definition py_int_unsigned :: "string \<Rightarrow> error + int" where
  "py_int_unsigned body =
     (if digits_ok body then Inr (dec_value (filter (\<lambda>c. c \<noteq> CHR ''_'') body))
      else Inl ValueError)"

definition py_int :: "string \<Rightarrow> error + int" where
  "py_int s =
     (case py_strip s of
        [] \<Rightarrow> Inl ValueError
      | c # cs \<Rightarrow>
          if c = CHR ''-'' then
            (case py_int_unsigned cs of Inl e \<Rightarrow> Inl e | Inr v \<Rightarrow> Inr (- v))
          else if c = CHR ''+'' then py_int_unsigned cs
          else py_int_unsigned (c # cs))"

section \<open>The source tree\<close>

text \<open>
  An lxml element: tag (written with its namespace prefix, as the selectors of the
  reader write it), attributes, text, tail and children. Absent text and tail are
  \<^verbatim>\<open>None\<close>.
\<close>

datatype node =
  Node (el_tag: string) (el_attrib: "(string \<times> string) list")
       (el_text: "string option") (el_tail: "string option") (el_children: "node list")

text \<open>\<^verbatim>\<open>el.get(key, default)\<close>.\<close>

definition attr_get :: "node \<Rightarrow> string \<Rightarrow> string \<Rightarrow> string" where
  "attr_get el k dflt = (case map_of (el_attrib el) k of None \<Rightarrow> dflt | Some v \<Rightarrow> v)"

section \<open>Schema detection\<close>

definition elsevier_ns :: string where
  "elsevier_ns =
     ''xmlns='' @ [CHR 0x22] @ ''http://www.elsevier.com/xml/svapi/article/dtd'' @ [CHR 0x22]"

text \<open>
  \<^verbatim>\<open>detect(self, fstring, fname=None)\<close>. The guard \<^verbatim>\<open>fname and not ...\<close> is Python
  truthiness: \<^verbatim>\<open>None\<close> and the empty string both skip the extension test.
\<close>

definition detect :: "string \<Rightarrow> string option \<Rightarrow> bool" where
  "detect fstring fname =
     (if (case fname of None \<Rightarrow> False | Some fn \<Rightarrow> fn \<noteq> [] \<and> \<not> endswith fn ''.xml'')
      then False
      else if py_contains elsevier_ns fstring then True
      else False)"

section \<open>Span attributes of a table cell\<close>

text \<open>
  \<^verbatim>\<open>int([i for i in v.split('col') if i][0])\<close>: the first non-empty piece between
  occurrences of \<^verbatim>\<open>'col'\<close>, converted to an integer.
\<close>

definition parse_colname :: "string \<Rightarrow> error + int" where
  "parse_colname v =
     (case filter (\<lambda>i. i \<noteq> []) (py_split v ''col'') of
        [] \<Rightarrow> Inl IndexError
      | i # _ \<Rightarrow> py_int i)"

definition cell_namest :: "node \<Rightarrow> error + int" where
  "cell_namest td = parse_colname (attr_get td ''namest'' ''1'')"

definition cell_nameend :: "node \<Rightarrow> error + int" where
  "cell_nameend td = parse_colname (attr_get td ''nameend'' ''1'')"

definition cell_morerows :: "node \<Rightarrow> error + int" where
  "cell_morerows td = py_int (attr_get td ''morerows'' ''0'')"

section \<open>Output elements and the collaborators of the reader\<close>

text \<open>
  The element classes handed to \<^verbatim>\<open>_parse_text\<close> as \<^verbatim>\<open>element_cls\<close>, and the output
  elements. A text element is its class and its text; a figure is its caption, its
  image URL and its identifier; \<open>OtherEl\<close> stands for the elements only the base
  reader builds (tables, paragraphs, reference markers).
\<close>

datatype cls = TitleC | HeadingC | CaptionC | CitationC | CellC

record metadata =
  md_title :: "string option"
  md_authors :: "string option list option"
  md_publisher :: "string option"
  md_journal :: "string option"
  md_date :: "string option"
  md_language :: "string option"
  md_volume :: "string option"
  md_issue :: "string option"
  md_firstpage :: "string option"
  md_lastpage :: "string option"
  md_doi :: "string option"
  md_pdf_url :: "string option"
  md_html_url :: "string option"

datatype element =
  TextEl cls string
  | FigureEl element string string
  | MetaDataEl metadata
  | OtherEl string

definition Cell :: "string \<Rightarrow> element" where
  "Cell s = TextEl CellC s"

definition Caption :: "string \<Rightarrow> element" where
  "Caption s = TextEl CaptionC s"

text \<open>
  Modelled from the spec: the element classes (\<^verbatim>\<open>doc/text.py\<close>, \<^verbatim>\<open>doc/table.py\<close>) are
  not among the sources, so the truth value \<^verbatim>\<open>any(r)\<close> reads off a cell is taken from
  section 4.4 of the specification, "drop any row that is entirely empty cells": a
  text element is false exactly when its text is empty.
\<close>

fun el_truthy :: "element \<Rightarrow> bool" where
  "el_truthy (TextEl c s) = (s \<noteq> [])"
| "el_truthy (FigureEl c u i) = True"
| "el_truthy (MetaDataEl m) = True"
| "el_truthy (OtherEl s) = True"

text \<open>
  The two maps of one \<^verbatim>\<open>parse\<close> call are keyed by node identity, which the tree
  datatype does not have. They are kept as logs of their writes, in the order the
  code makes them: \<open>specials\<close> pairs a node with its elements, \<open>refs\<close> pairs the
  parent of a reference marker (\<^verbatim>\<open>None\<close> when it has none) with the markers found.
\<close>

type_synonym specials = "(node \<times> element list) list"
type_synonym refs = "(node option \<times> element list) list"

text \<open>What \<^verbatim>\<open>_find_table\<close> yields: a table node, or a tuple whose first item is one.\<close>

datatype table_sel = TableNode node | TableTuple "node list"

text \<open>
  The code of the base reader, the cleaner and lxml that this module drives is not
  among the sources; it is a parameter of the model. \<open>css\<close> is \<^verbatim>\<open>self._css\<close>,
  \<open>parse_text\<close> is \<^verbatim>\<open>self._parse_text\<close> (the list it returns, which the code
  indexes with \<^verbatim>\<open>[0]\<close>), \<open>getparent\<close> is lxml's \<^verbatim>\<open>getparent\<close> resolved in the
  tree given first, \<open>parse_table\<close> is the base reader's \<^verbatim>\<open>_parse_table\<close>, which calls
  back the row parser it is given, and the three \<open>metadata_*_css\<close> fields are the
  selectors this class inherits without defining them.
\<close>

record reader =
  make_tree :: "string \<Rightarrow> node option"
  css :: "string \<Rightarrow> node \<Rightarrow> node list"
  getparent :: "node \<Rightarrow> node \<Rightarrow> node option"
  clean :: "node \<Rightarrow> node"
  strip_els_xml :: "node \<Rightarrow> node"
  parse_text :: "cls \<Rightarrow> refs \<Rightarrow> specials \<Rightarrow> node \<Rightarrow> element list"
  parse_reference :: "node \<Rightarrow> element list"
  find_table :: "node \<Rightarrow> table_sel list"
  parse_table ::
    "(node list \<Rightarrow> refs \<Rightarrow> specials \<Rightarrow> error + element list list) \<Rightarrow>
     table_sel \<Rightarrow> refs \<Rightarrow> specials \<Rightarrow> error + element list"
  parse_element :: "node \<Rightarrow> specials \<Rightarrow> refs \<Rightarrow> element list"
  metadata_language_css :: string
  metadata_pdf_url_css :: string
  metadata_html_url_css :: string

subsection \<open>The selectors of the class\<close>

definition root_css :: string where "root_css = ''default|full-text-retrieval-response''"
definition title_css :: string where "title_css = ''dc|title''"
definition heading_css :: string where "heading_css = ''ce|section-title''"
definition table_cell_css :: string where "table_cell_css = ''ce|entry''"
definition figure_css :: string where "figure_css = ''ce|figure''"
definition figure_caption_css :: string where "figure_caption_css = ''ce|figure ce|caption''"
definition figure_link_css :: string where "figure_link_css = ''ce|figure ce|link''"
definition reference_css :: string where "reference_css = ''ce|cross-ref, ce|cross-refs''"
definition citation_css :: string where "citation_css = ''ce|bib-reference''"
definition img_filetypes_css :: string where
  "img_filetypes_css = ''xocs|attachment xocs|filename''"

definition metadata_title_css :: string where
  "metadata_title_css = ''xocs|normalized-article-title''"
definition metadata_author_css :: string where
  "metadata_author_css = ''xocs|normalized-first-auth-surname''"
definition metadata_journal_css :: string where
  "metadata_journal_css = ''xocs|srctitle''"
definition metadata_volume_css :: string where
  "metadata_volume_css = ''xocs|vol-first, xocs|volume-list xocs|volume''"
definition metadata_issue_css :: string where
  "metadata_issue_css = ''xocs|issns xocs|issn-primary-formatted''"
definition metadata_publisher_css :: string where
  "metadata_publisher_css = ''xocs|copyright-line''"
definition metadata_date_css :: string where
  "metadata_date_css = ''xocs|available-online-date, xocs|orig-load-date''"
definition metadata_firstpage_css :: string where
  "metadata_firstpage_css = ''xocs|first-fp''"
definition metadata_lastpage_css :: string where
  "metadata_lastpage_css = ''xocs|last-lp''"
definition metadata_doi_css :: string where
  "metadata_doi_css = ''xocs|doi, xocs|eii''"
definition metadata_pii_css :: string where
  "metadata_pii_css = ''xocs|pii-unformatted''"

definition ignore_css :: string where
  "ignore_css =
     ''ce|bibliography, ce|acknowledgment, ce|correspondence, ce|author, ce|doi, ja|jid, ja|aid, ce|pii, xocs|oa-sponsor-type, xocs|open-access, default|openaccess,'' @
     ''default|openaccessArticle, dc|format, dc|creator, dc|identifier,'' @
     ''default|eid, default|pii, xocs|meta, xocs|ref-info, default|scopus-eid,'' @
     ''xocs|normalized-srctitle,'' @
     ''xocs|eid, xocs|hub-eid, xocs|normalized-first-auth-surname,'' @
     ''xocs|normalized-first-auth-initial, xocs|refkeys,'' @
     ''xocs|attachment-eid, xocs|attachment-type,'' @
     ''ja|jid, ce|given-name, ce|surname, ce|affiliation, ce|cross-refs, ce|cross-ref,'' @
     ''ce|grant-sponsor, ce|grant-number, prism|copyright,'' @
     ''xocs|pii-unformatted, xocs|ucs-locator, ce|copyright,'' @
     ''prism|publisher, prism|*, xocs|copyright-line, xocs|cp-notice,'' @
     ''dc|description''"

definition url_prefix :: string where
  "url_prefix = ''https://sciencedirect.com/science/article/pii/''"

section \<open>Whitespace normalisation\<close>

text \<open>Python truthiness of an optional string, and \<^verbatim>\<open>(x or '')\<close>.\<close>

definition py_truthy :: "string option \<Rightarrow> bool" where
  "py_truthy t = (case t of None \<Rightarrow> False | Some s \<Rightarrow> s \<noteq> [])"

definition or_empty :: "string option \<Rightarrow> string" where
  "or_empty t = (case t of None \<Rightarrow> [] | Some s \<Rightarrow> s)"

fun set_tail :: "string option \<Rightarrow> node \<Rightarrow> node" where
  "set_tail t (Node tg a tx tt ks) = Node tg a tx t ks"

fun nsize :: "node \<Rightarrow> nat" where
  "nsize (Node tg a tx tt ks) = Suc (sum_list (map nsize ks))"

definition hsp_tag :: string where
  "hsp_tag = ''ce:hsp''"

text \<open>
  The body of the loop of \<^verbatim>\<open>fix_elsevier_xml_whitespace\<close> for one \<^verbatim>\<open>ce:hsp\<close> node
  \<open>el\<close>. The parent is seen through its text \<open>ptext\<close>; \<open>prevs\<close> are the siblings before
  \<open>el\<close>, nearest first, so \<^verbatim>\<open>el.getprevious()\<close> is its head and is \<^verbatim>\<open>None\<close> when it
  is empty.

  Lines 44 to 56: the text of \<open>el\<close> goes to the tail of the previous sibling, or to
  the text of the parent when there is none, and only when that target is already
  non-empty (the tests \<^verbatim>\<open>if parent.text:\<close> and \<^verbatim>\<open>if previous.tail:\<close> have no
  \<^verbatim>\<open>else\<close>).
\<close>

definition splice_text :: "string option \<Rightarrow> node list \<Rightarrow> node \<Rightarrow> string option \<times> node list" where
  "splice_text ptext prevs el =
     (if py_truthy (el_text el) then
        (case prevs of
           [] \<Rightarrow>
             (if py_truthy ptext then
                (if endswith (or_empty ptext) '' ''
                 then (Some (or_empty ptext @ [] @ or_empty (el_text el)), prevs)
                 else (Some (or_empty ptext @ '' '' @ or_empty (el_text el)), prevs))
              else (ptext, prevs))
         | previous # others \<Rightarrow>
             (if py_truthy (el_tail previous) then
                (if endswith (or_empty (el_tail previous)) '' ''
                 then (ptext,
                   set_tail (Some (or_empty (el_tail previous) @ [] @ or_empty (el_text el)))
                     previous # others)
                 else (ptext,
                   set_tail (Some (or_empty (el_tail previous) @ '' '' @ or_empty (el_text el)))
                     previous # others))
              else (ptext, prevs)))
      else (ptext, prevs))"

text \<open>
  Lines 58 to 71: the tail of \<open>el\<close> goes to the tail of its last child when it has
  children, else to the tail of the previous sibling, else to the text of the
  parent; a space is put in front unless the tail starts with one.
\<close>

definition splice_tail :: "string option \<Rightarrow> node list \<Rightarrow> node \<Rightarrow> string option \<times> node list" where
  "splice_tail ptext prevs el =
     (if py_truthy (el_tail el) then
        (if el_children el \<noteq> [] then (ptext, prevs)
         else
           (case prevs of
              [] \<Rightarrow>
                (if startswith (or_empty (el_tail el)) '' ''
                 then (Some (or_empty ptext @ [] @ or_empty (el_tail el)), prevs)
                 else (Some (or_empty ptext @ '' '' @ or_empty (el_tail el)), prevs))
            | previous # others \<Rightarrow>
                (if startswith (or_empty (el_tail el)) '' ''
                 then (ptext,
                   set_tail (Some (or_empty (el_tail previous) @ [] @ or_empty (el_tail el)))
                     previous # others)
                 else (ptext,
                   set_tail (Some (or_empty (el_tail previous) @ '' '' @ or_empty (el_tail el)))
                     previous # others))))
      else (ptext, prevs))"

text \<open>
  The children that take the place of \<open>el\<close> (\<^verbatim>\<open>parent[index:index + 1] = el[:]\<close>),
  the last one carrying the tail of \<open>el\<close> (lines 59 to 61).
\<close>

definition spliced_children :: "node \<Rightarrow> node list" where
  "spliced_children el =
     (if py_truthy (el_tail el) \<and> el_children el \<noteq> []
      then butlast (el_children el) @
           [set_tail (Some (or_empty (el_tail (last (el_children el))) @ or_empty (el_tail el)))
              (last (el_children el))]
      else el_children el)"

lemma nsize_set_tail: "nsize (set_tail t n) = nsize n"
  by (cases n) simp

lemma nsize_spliced_children:
  "sum_list (map nsize (spliced_children el)) = sum_list (map nsize (el_children el))"
proof (cases "py_truthy (el_tail el) \<and> el_children el \<noteq> []")
  case True
  then have "el_children el = butlast (el_children el) @ [last (el_children el)]" by simp
  then have "sum_list (map nsize (el_children el)) =
      sum_list (map nsize (butlast (el_children el))) + nsize (last (el_children el))"
    by (metis (no_types) add.right_neutral list.simps(8,9) map_append sum_list.Cons
        sum_list.Nil sum_list_append)
  with True show ?thesis by (simp add: spliced_children_def nsize_set_tail)
next
  case False
  then show ?thesis by (auto simp: spliced_children_def)
qed

lemma nsize_children: "sum_list (map nsize (el_children el)) < nsize el"
  by (cases el) simp

lemma nsize_pos: "0 < nsize el"
  by (cases el) simp

text \<open>
  The pass visits the \<^verbatim>\<open>ce:hsp\<close> descendants in document order. \<open>splice_children\<close>
  walks the children of one parent from the left: \<open>prevs\<close> are the children already
  settled, \<open>rest\<close> those still to visit; a \<^verbatim>\<open>ce:hsp\<close> child is merged into its
  surroundings and replaced by its children, which are visited next; any other
  child is settled after its own subtree has been fixed.
\<close>

function fix_node :: "node \<Rightarrow> node"
  and splice_children :: "string option \<Rightarrow> node list \<Rightarrow> node list \<Rightarrow> string option \<times> node list" where
  "fix_node (Node tg a tx tt ks) =
     (case splice_children tx [] ks of (tx', ks') \<Rightarrow> Node tg a tx' tt ks')"
| "splice_children ptext prevs [] = (ptext, rev prevs)"
| "splice_children ptext prevs (el # rest) =
     (if el_tag el = hsp_tag then
        (case splice_text ptext prevs el of (pt1, pv1) \<Rightarrow>
           (case splice_tail pt1 pv1 el of (pt2, pv2) \<Rightarrow>
              splice_children pt2 pv2 (spliced_children el @ rest)))
      else splice_children ptext (fix_node el # prevs) rest)"
  by pat_completeness auto

termination
proof (relation "measure (\<lambda>x. case x of
    Inl n \<Rightarrow> 2 * nsize n
  | Inr (pt, pv, todo) \<Rightarrow> 2 * sum_list (map nsize todo) + 1)")
  show "wf (measure (\<lambda>x. case x of
      Inl n \<Rightarrow> 2 * nsize n
    | Inr (pt, pv, todo) \<Rightarrow> 2 * sum_list (map nsize todo) + 1))"
    by simp
qed (auto simp: nsize_spliced_children nsize_children nsize_pos)

definition fix_elsevier_xml_whitespace :: "node \<Rightarrow> node" where
  "fix_elsevier_xml_whitespace document = fix_node document"

text \<open>
  \<^verbatim>\<open>els_xml_whitespace\<close>: \<^verbatim>\<open>str(x).isspace()\<close> holds for a non-empty string of
  whitespace only; \<^verbatim>\<open>str(None)\<close> is \<^verbatim>\<open>'None'\<close>, so an absent text stays absent.
\<close>

definition py_isspace :: "string \<Rightarrow> bool" where
  "py_isspace s = (s \<noteq> [] \<and> list_all is_space s)"

definition clear_space :: "string option \<Rightarrow> string option" where
  "clear_space t = (case t of None \<Rightarrow> None | Some s \<Rightarrow> if py_isspace s then Some [] else Some s)"

fun els_xml_whitespace :: "node \<Rightarrow> node" where
  "els_xml_whitespace (Node tg a tx tt ks) =
     Node tg a (clear_space tx) (clear_space tt) (map els_xml_whitespace ks)"

definition joined :: "string \<Rightarrow> string \<Rightarrow> string" where
  "joined T R = T @ (if startswith R '' '' then [] else '' '') @ R"

section \<open>Table reconstruction\<close>

text \<open>
  \<^verbatim>\<open>hdict\<close> is a dictionary from row numbers to dictionaries from column numbers to
  cells; both are association lists with one entry per key.
\<close>

type_synonym rowdict = "(nat \<times> element) list"
type_synonym hdict = "(nat \<times> rowdict) list"

text \<open>\<^verbatim>\<open>k in d\<close>, \<^verbatim>\<open>hdict[r]\<close> (only read once the row is there) and \<^verbatim>\<open>sorted(d)\<close>.\<close>

definition dict_has :: "('k \<times> 'v) list \<Rightarrow> 'k \<Rightarrow> bool" where
  "dict_has d k = (k \<in> fst ` set d)"

definition row_of :: "hdict \<Rightarrow> nat \<Rightarrow> rowdict" where
  "row_of h r = (case map_of h r of None \<Rightarrow> [] | Some d \<Rightarrow> d)"

definition dict_keys_sorted :: "(nat \<times> 'v) list \<Rightarrow> nat list" where
  "dict_keys_sorted d = sort (remdups (map fst d))"

text \<open>\<^verbatim>\<open>while colnum in hdict[rownum]: colnum += 1\<close>.\<close>

function next_free :: "rowdict \<Rightarrow> nat \<Rightarrow> nat" where
  "next_free d colnum = (if dict_has d colnum then next_free d (colnum + 1) else colnum)"
  by pat_completeness auto
termination
proof (relation "measure (\<lambda>(d, c). Suc (Max (insert 0 (fst ` set d))) - c)")
  show "wf (measure (\<lambda>(d, c). Suc (Max (insert 0 (fst ` set d))) - c))" by simp
next
  fix d :: rowdict and colnum :: nat
  assume "dict_has d colnum"
  then have "colnum \<le> Max (insert 0 (fst ` set d))"
    by (simp add: dict_has_def)
  then show "((d, colnum + 1), (d, colnum))
      \<in> measure (\<lambda>(d, c). Suc (Max (insert 0 (fst ` set d))) - c)"
    by simp
qed

declare next_free.simps [simp del]

text \<open>
  \<^verbatim>\<open>for j in range(rowspan)\<close>, lines 213 to 219, from \<open>j\<close> on with \<open>n\<close> rounds to go.
  \<^verbatim>\<open>cell[0]\<close> is read in every round and raises on an empty list.
\<close>

fun place_rows :: "element list \<Rightarrow> nat \<Rightarrow> nat \<Rightarrow> nat \<Rightarrow> hdict \<times> nat \<Rightarrow> error + hdict \<times> nat" where
  "place_rows cell row j 0 st = Inr st"
| "place_rows cell row j (Suc n) (h, colnum) =
     (let rownum = row + j;
          h1 = (if dict_has h rownum then h else AList.update rownum [] h);
          colnum1 = next_free (row_of h1 rownum) colnum
      in case cell of
           [] \<Rightarrow> Inl IndexError
         | c0 # _ \<Rightarrow>
             place_rows cell row (Suc j) n
               (AList.update rownum (AList.update colnum1 c0 (row_of h1 rownum)) h1, colnum1))"

text \<open>\<^verbatim>\<open>for i in range(colspan)\<close>, lines 212 to 220, with \<open>n\<close> rounds to go.\<close>

fun place_cols :: "element list \<Rightarrow> nat \<Rightarrow> nat \<Rightarrow> nat \<Rightarrow> hdict \<times> nat \<Rightarrow> error + hdict \<times> nat" where
  "place_cols cell row rowspan 0 st = Inr st"
| "place_cols cell row rowspan (Suc n) st =
     (case place_rows cell row 0 rowspan st of
        Inl e \<Rightarrow> Inl e
      | Inr (h, colnum) \<Rightarrow> place_cols cell row rowspan n (h, colnum + 1))"

text \<open>The cells of one row, lines 206 to 220.\<close>

fun parse_row_cells ::
  "reader \<Rightarrow> refs \<Rightarrow> specials \<Rightarrow> nat \<Rightarrow> node list \<Rightarrow> hdict \<times> nat \<Rightarrow> error + hdict \<times> nat" where
  "parse_row_cells rdr refs specials row [] st = Inr st"
| "parse_row_cells rdr refs specials row (td # tds) st =
     (let cell = parse_text rdr CellC refs specials td in
      case cell_namest td of Inl e \<Rightarrow> Inl e | Inr namest \<Rightarrow>
      case cell_nameend td of Inl e \<Rightarrow> Inl e | Inr nameend \<Rightarrow>
      case cell_morerows td of Inl e \<Rightarrow> Inl e | Inr morerows \<Rightarrow>
        (let colspan = (nameend - namest) + 1; rowspan = morerows + 1 in
         case place_cols cell row (nat rowspan) (nat colspan) st of
           Inl e \<Rightarrow> Inl e
         | Inr st' \<Rightarrow> parse_row_cells rdr refs specials row tds st'))"

text \<open>\<^verbatim>\<open>for row, tr in enumerate(els)\<close>, from row number \<open>row\<close> on.\<close>

fun parse_rows_from ::
  "reader \<Rightarrow> refs \<Rightarrow> specials \<Rightarrow> nat \<Rightarrow> node list \<Rightarrow> hdict \<Rightarrow> error + hdict" where
  "parse_rows_from rdr refs specials row [] h = Inr h"
| "parse_rows_from rdr refs specials row (tr # trs) h =
     (case parse_row_cells rdr refs specials row (css rdr table_cell_css tr) (h, 0) of
        Inl e \<Rightarrow> Inl e
      | Inr (h', colnum) \<Rightarrow> parse_rows_from rdr refs specials (Suc row) trs h')"

text \<open>The table grid \<^verbatim>\<open>hdict\<close> as it stands after line 220.\<close>

definition parse_table_grid :: "reader \<Rightarrow> node list \<Rightarrow> refs \<Rightarrow> specials \<Rightarrow> error + hdict" where
  "parse_table_grid rdr els refs specials = parse_rows_from rdr refs specials 0 els []"

text \<open>The cell at a row and a column of the grid, and the columns taken in a row.\<close>

definition grid_at :: "hdict \<Rightarrow> nat \<Rightarrow> nat \<Rightarrow> element option" where
  "grid_at h r c = map_of (row_of h r) c"

definition occ :: "hdict \<Rightarrow> nat \<Rightarrow> nat set" where
  "occ h r = fst ` set (row_of h r)"

text \<open>Lines 221 to 225: the rows in key order, each with its cells in key order.\<close>

definition grid_rows :: "hdict \<Rightarrow> element list list" where
  "grid_rows h =
     map (\<lambda>row. List.map_filter (map_of (row_of h row)) (dict_keys_sorted (row_of h row)))
       (dict_keys_sorted h)"

text \<open>
  Lines 226 and 227. \<^verbatim>\<open>len(max(rows, key=len))\<close> is read again for every row, from
  the rows as they are by then: \<open>padded\<close> are the rows already extended.
\<close>

definition max_len :: "'a list list \<Rightarrow> nat" where
  "max_len rows = foldr (\<lambda>r m. max (length r) m) rows 0"

fun pad_rows :: "element list list \<Rightarrow> element list list \<Rightarrow> element list list" where
  "pad_rows padded [] = padded"
| "pad_rows padded (r # todo) =
     pad_rows (padded @ [r @ replicate (max_len (padded @ r # todo) - length r) (Cell [])]) todo"

text \<open>Line 228, and the function as a whole.\<close>

definition finish_rows :: "hdict \<Rightarrow> element list list" where
  "finish_rows h = filter (\<lambda>r. list_ex el_truthy r) (pad_rows [] (grid_rows h))"

definition parse_table_rows ::
  "reader \<Rightarrow> node list \<Rightarrow> refs \<Rightarrow> specials \<Rightarrow> error + element list list" where
  "parse_table_rows rdr els refs specials =
     (case parse_table_grid rdr els refs specials of
        Inl e \<Rightarrow> Inl e
      | Inr h \<Rightarrow> Inr (finish_rows h))"

text \<open>Notions used to state and prove the claims about the grid.\<close>

definition pad_to :: "nat \<Rightarrow> element list \<Rightarrow> element list" where
  "pad_to m r = r @ replicate (m - length r) (Cell [])"

definition put :: "hdict \<Rightarrow> nat \<Rightarrow> nat \<Rightarrow> element \<Rightarrow> hdict" where
  "put h r c v = AList.update r (AList.update c v (row_of h r)) h"


definition no_span :: "node \<Rightarrow> bool" where
  "no_span td =
     (map_of (el_attrib td) ''namest'' = None \<and> map_of (el_attrib td) ''nameend'' = None \<and>
      map_of (el_attrib td) ''morerows'' = None)"

subsection \<open>The raw layout, as the specification words it\<close>

text \<open>
  Specification side, not a function of the source: ``the raw row/cell layout'' of
  a table is, row by row and cell by cell in document order, the element each
  cell converts to (\<^verbatim>\<open>cell[0]\<close> of the source; the statements that use it ask for
  every cell to convert to at least one element). It is compared below with what
  \<^verbatim>\<open>_parse_table_rows\<close> returns.
\<close>

definition converted_row :: "reader \<Rightarrow> refs \<Rightarrow> specials \<Rightarrow> node \<Rightarrow> element list" where
  "converted_row rdr refs specials tr =
     map (\<lambda>td. hd (parse_text rdr CellC refs specials td)) (css rdr table_cell_css tr)"

definition raw_layout :: "reader \<Rightarrow> node list \<Rightarrow> refs \<Rightarrow> specials \<Rightarrow> element list list" where
  "raw_layout rdr els refs specials = map (converted_row rdr refs specials) els"

text \<open>Row \<open>r\<close> of the grid holds exactly the cells \<open>vs\<close>, at the columns from 0 on.\<close>

definition row_is :: "hdict \<Rightarrow> nat \<Rightarrow> element list \<Rightarrow> bool" where
  "row_is h r vs =
     (occ h r = {0..<length vs} \<and> (\<forall>c < length vs. grid_at h r c = Some (vs ! c)))"

definition row_cells :: "hdict \<Rightarrow> nat \<Rightarrow> element list" where
  "row_cells h r = List.map_filter (map_of (row_of h r)) (dict_keys_sorted (row_of h r))"

definition rows_laid :: "hdict \<Rightarrow> hdict \<Rightarrow> nat \<Rightarrow> element list list \<Rightarrow> bool" where
  "rows_laid h h' row E =
     ((\<forall>j < length E. row_is h' (row + j) (E ! j)) \<and>
      (\<forall>r. r \<in> fst ` set h' \<longleftrightarrow>
            r \<in> fst ` set h \<or> (\<exists>j < length E. r = row + j \<and> E ! j \<noteq> [])) \<and>
      (\<forall>r < row. row_of h' r = row_of h r))"

section \<open>Figures\<close>

text \<open>\<^verbatim>\<open>el.attrib[key]\<close>, which raises on a missing key.\<close>

definition attrib_index :: "node \<Rightarrow> string \<Rightarrow> error + string" where
  "attrib_index el k = (case map_of (el_attrib el) k of None \<Rightarrow> Inl KeyError | Some v \<Rightarrow> Inr v)"

definition xlink_href :: string where
  "xlink_href = ''{http://www.w3.org/1999/xlink}href''"

text \<open>
  Line 244: the list comprehension over the attachment file names; \<^verbatim>\<open>img_id in
  filename.text\<close> raises when a file name node has no text.
\<close>

fun filename_candidates :: "string \<Rightarrow> node list \<Rightarrow> error + node list" where
  "filename_candidates img_id [] = Inr []"
| "filename_candidates img_id (filename # others) =
     (case el_text filename of
        None \<Rightarrow> Inl TypeError
      | Some t \<Rightarrow>
          (case filename_candidates img_id others of
             Inl e \<Rightarrow> Inl e
           | Inr r \<Rightarrow>
               Inr (if py_contains img_id t \<and> py_contains ''_lrg'' t then filename # r else r)))"

text \<open>
  \<^verbatim>\<open>_parse_figure\<close>. \<^verbatim>\<open>img_id\<close> is a string in either branch of line 240, so the test
  \<^verbatim>\<open>img_id is not None\<close> of line 241 always holds; were it to fail, \<^verbatim>\<open>img_url\<close>
  would be unbound at line 250. An empty \<^verbatim>\<open>filename_candidates\<close> leaves
  \<^verbatim>\<open>filename = ''\<close>, whose \<^verbatim>\<open>.text\<close> raises at line 249.
\<close>

definition parse_figure :: "reader \<Rightarrow> node \<Rightarrow> node \<Rightarrow> refs \<Rightarrow> specials \<Rightarrow> error + element list" where
  "parse_figure rdr el root refs specials =
     (let filenames = css rdr img_filetypes_css root;
          caps = css rdr figure_caption_css el in
      case (case caps of
              [] \<Rightarrow> Inr (Caption [])
            | cap # _ \<Rightarrow>
                (case parse_text rdr CaptionC refs specials cap of
                   [] \<Rightarrow> Inl IndexError
                 | c # _ \<Rightarrow> Inr c)) of
        Inl e \<Rightarrow> Inl e
      | Inr caption \<Rightarrow>
          (let link = css rdr figure_link_css el in
           case (case link of
                   [] \<Rightarrow> Inr (Some [])
                 | l # _ \<Rightarrow>
                     (case attrib_index l ''locator'' of
                        Inl e \<Rightarrow> Inl e
                      | Inr v \<Rightarrow> Inr (Some v))) of
             Inl e \<Rightarrow> Inl e
           | Inr None \<Rightarrow> Inl UnboundLocalError
           | Inr (Some img_id) \<Rightarrow>
               (case filename_candidates img_id filenames of
                  Inl e \<Rightarrow> Inl e
                | Inr cands \<Rightarrow>
                    (case link of
                       [] \<Rightarrow> Inl IndexError
                     | l # _ \<Rightarrow>
                         (case attrib_index l xlink_href of
                            Inl e \<Rightarrow> Inl e
                          | Inr href \<Rightarrow>
                              (case py_split href ''/'' of
                                 [] \<Rightarrow> Inl IndexError
                               | seg # _ \<Rightarrow>
                                   (case cands of
                                      [] \<Rightarrow> Inl AttributeError
                                    | filename # _ \<Rightarrow>
                                        (case el_text filename of
                                           None \<Rightarrow> Inl TypeError
                                         | Some t \<Rightarrow>
                                             Inr [FigureEl caption
                                                (''https://ars.els-cdn.com/content/image/1-s2.0-'' @
                                                 drop 4 seg @ ''-'' @ t)
                                                img_id]))))))))"

section \<open>Metadata\<close>

text \<open>\<^verbatim>\<open>x[0].text if x else None\<close>.\<close>

definition first_text :: "node list \<Rightarrow> string option" where
  "first_text xs = (case xs of [] \<Rightarrow> None | x # _ \<Rightarrow> el_text x)"

text \<open>\<^verbatim>\<open>self.url_prefix + x[0].text\<close>: adding \<^verbatim>\<open>None\<close> to a string raises.\<close>

definition prefixed_url :: "node \<Rightarrow> error + string" where
  "prefixed_url x = (case el_text x of None \<Rightarrow> Inl TypeError | Some t \<Rightarrow> Inr (url_prefix @ t))"

text \<open>
  \<^verbatim>\<open>_parse_metadata\<close>. The dictionary is built entry by entry, so the PDF URL is
  computed before the HTML URL.
\<close>

definition parse_metadata :: "reader \<Rightarrow> node \<Rightarrow> refs \<Rightarrow> specials \<Rightarrow> error + element list" where
  "parse_metadata rdr el refs specials =
     (let title = css rdr metadata_title_css el;
          authors = css rdr metadata_author_css el;
          publisher = css rdr metadata_publisher_css el;
          journal = css rdr metadata_journal_css el;
          date = css rdr metadata_date_css el;
          language = css rdr (metadata_language_css rdr) el;
          volume = css rdr metadata_volume_css el;
          issue = css rdr metadata_issue_css el;
          firstpage = css rdr metadata_firstpage_css el;
          lastpage = css rdr metadata_lastpage_css el;
          doi = css rdr metadata_doi_css el;
          pii = css rdr metadata_pii_css el;
          pdf_url = css rdr (metadata_pdf_url_css rdr) el;
          html_url = css rdr (metadata_html_url_css rdr) el in
      case (case pdf_url of
              [] \<Rightarrow> Inr None
            | p # _ \<Rightarrow> (case prefixed_url p of Inl e \<Rightarrow> Inl e | Inr u \<Rightarrow> Inr (Some u))) of
        Inl e \<Rightarrow> Inl e
      | Inr pdf \<Rightarrow>
          (case (case html_url of
                   u # _ \<Rightarrow> prefixed_url u
                 | [] \<Rightarrow> (case pii of [] \<Rightarrow> Inl IndexError | p # _ \<Rightarrow> prefixed_url p)) of
             Inl e \<Rightarrow> Inl e
           | Inr html \<Rightarrow>
               Inr [MetaDataEl
                 \<lparr> md_title = first_text title,
                   md_authors = (if authors = [] then None else Some (map el_text authors)),
                   md_publisher = first_text publisher,
                   md_journal = first_text journal,
                   md_date = first_text date,
                   md_language = first_text language,
                   md_volume = first_text volume,
                   md_issue = first_text issue,
                   md_firstpage = first_text firstpage,
                   md_lastpage = first_text lastpage,
                   md_doi = first_text doi,
                   md_pdf_url = pdf,
                   md_html_url = Some html \<rparr>]))"

section \<open>The top-level parse\<close>

text \<open>The loops of lines 270 to 284, each adding its writes to the log.\<close>

definition collect_refs :: "reader \<Rightarrow> node \<Rightarrow> node list \<Rightarrow> refs" where
  "collect_refs rdr root references =
     map (\<lambda>reference. (getparent rdr root reference, parse_reference rdr reference)) references"

fun text_specials :: "reader \<Rightarrow> cls \<Rightarrow> refs \<Rightarrow> node list \<Rightarrow> specials \<Rightarrow> specials" where
  "text_specials rdr c refs [] specials = specials"
| "text_specials rdr c refs (el # others) specials =
     text_specials rdr c refs others (specials @ [(el, parse_text rdr c refs specials el)])"

fun figure_specials :: "reader \<Rightarrow> node \<Rightarrow> refs \<Rightarrow> node list \<Rightarrow> specials \<Rightarrow> error + specials" where
  "figure_specials rdr root refs [] specials = Inr specials"
| "figure_specials rdr root refs (figure # others) specials =
     (case parse_figure rdr figure root refs specials of
        Inl e \<Rightarrow> Inl e
      | Inr fig \<Rightarrow> figure_specials rdr root refs others (specials @ [(figure, fig)]))"

fun table_specials :: "reader \<Rightarrow> refs \<Rightarrow> table_sel list \<Rightarrow> specials \<Rightarrow> error + specials" where
  "table_specials rdr refs [] specials = Inr specials"
| "table_specials rdr refs (table # others) specials =
     (case (case table of
              TableNode n \<Rightarrow> Inr n
            | TableTuple [] \<Rightarrow> Inl IndexError
            | TableTuple (n # _) \<Rightarrow> Inr n) of
        Inl e \<Rightarrow> Inl e
      | Inr tab_id \<Rightarrow>
          (case parse_table rdr (parse_table_rows rdr) table refs specials of
             Inl e \<Rightarrow> Inl e
           | Inr tab \<Rightarrow> table_specials rdr refs others (specials @ [(tab_id, tab)])))"

text \<open>
  \<^verbatim>\<open>parse\<close>; a document is the list of its elements. The cleaners change the tree
  in place and run in the order of the \<^verbatim>\<open>cleaners\<close> list. The \<^verbatim>\<open>print\<close> of line 258
  has no part in the result.
\<close>

definition parse :: "reader \<Rightarrow> string \<Rightarrow> error + element list" where
  "parse rdr fstring =
     (case make_tree rdr fstring of
        None \<Rightarrow> Inl ReaderError
      | Some tree \<Rightarrow>
          (case css rdr root_css tree of
             [] \<Rightarrow> Inl IndexError
           | root0 # _ \<Rightarrow>
               (let root = strip_els_xml rdr (els_xml_whitespace
                             (fix_elsevier_xml_whitespace (clean rdr root0)));
                    titles = css rdr title_css root;
                    headings = css rdr heading_css root;
                    figures = css rdr figure_css root;
                    tables = find_table rdr root;
                    citations = css rdr citation_css root;
                    references = css rdr reference_css root;
                    ignores = css rdr ignore_css root;
                    refs = collect_refs rdr root references;
                    sp0 = map (\<lambda>ignore. (ignore, [])) ignores;
                    sp1 = text_specials rdr TitleC refs titles sp0;
                    sp2 = text_specials rdr HeadingC refs headings sp1 in
                case figure_specials rdr root refs figures sp2 of
                  Inl e \<Rightarrow> Inl e
                | Inr sp3 \<Rightarrow>
                    (case table_specials rdr refs tables sp3 of
                       Inl e \<Rightarrow> Inl e
                     | Inr sp4 \<Rightarrow>
                         Inr (parse_element rdr root
                                (text_specials rdr CitationC refs citations sp4) refs)))))"

section \<open>A small reader for concrete runs\<close>

text \<open>
  To run the functions on concrete trees: a selector picks the children whose tag
  is the selector itself, and a text-bearing node converts to one element holding
  its text.
\<close>

definition child_css :: "string \<Rightarrow> node \<Rightarrow> node list" where
  "child_css sel el = filter (\<lambda>k. el_tag k = sel) (el_children el)"

definition child_reader :: "node option \<Rightarrow> reader" where
  "child_reader tree =
     \<lparr> make_tree = (\<lambda>fstring. tree),
       css = child_css,
       getparent = (\<lambda>root el. None),
       clean = (\<lambda>el. el),
       strip_els_xml = (\<lambda>el. el),
       parse_text = (\<lambda>c refs specials el. [TextEl c (or_empty (el_text el))]),
       parse_reference = (\<lambda>el. []),
       find_table = (\<lambda>el. []),
       parse_table = (\<lambda>rows table refs specials. Inr []),
       parse_element = (\<lambda>el specials refs. concat (map snd specials)),
       metadata_language_css = ''dc|language'',
       metadata_pdf_url_css = ''pdf-url'',
       metadata_html_url_css = ''html-url'' \<rparr>"

definition entry :: "(string \<times> string) list \<Rightarrow> string \<Rightarrow> node" where
  "entry a s = Node ''ce|entry'' a (Some s) None []"

definition table_row :: "node list \<Rightarrow> node" where
  "table_row ks = Node ''cals|row'' [] None None ks"

section \<open>Facts about the Python primitives\<close>

lemma py_contains_iff: "py_contains needle hay \<longleftrightarrow> (\<exists>pre post. hay = pre @ needle @ post)"
proof (induction hay)
  case Nil
  then show ?case by auto
next
  case (Cons c cs)
  show ?case
  proof
    assume "py_contains needle (c # cs)"
    then consider "prefix needle (c # cs)" | "py_contains needle cs" by auto
    then show "\<exists>pre post. c # cs = pre @ needle @ post"
    proof cases
      case 1
      then obtain post where "c # cs = needle @ post" by (auto simp: prefix_def)
      then have "c # cs = [] @ needle @ post" by simp
      then show ?thesis by blast
    next
      case 2
      with Cons.IH obtain pre post where "cs = pre @ needle @ post" by blast
      then have "c # cs = (c # pre) @ needle @ post" by simp
      then show ?thesis by blast
    qed
  next
    assume "\<exists>pre post. c # cs = pre @ needle @ post"
    then obtain pre post where eq: "c # cs = pre @ needle @ post" by blast
    show "py_contains needle (c # cs)"
    proof (cases pre)
      case Nil
      with eq have "prefix needle (c # cs)" by (simp add: prefix_def)
      then show ?thesis by simp
    next
      case (Cons p ps)
      with eq have "cs = ps @ needle @ post" by simp
      with Cons.IH have "py_contains needle cs" by blast
      then show ?thesis by simp
    qed
  qed
qed

lemma split_from_no_c:
  "CHR ''c'' \<notin> set s \<Longrightarrow> py_split_from ''col'' cur s = [cur @ s]"
  by (induction s arbitrary: cur) (auto simp: prefix_Cons)

lemma split_col_prefixed:
  "CHR ''c'' \<notin> set s \<Longrightarrow> py_split (''col'' @ s) ''col'' = [[], s]"
  using split_from_no_c [of s "[]"] by (simp add: py_split_def)

lemma split_col_plain:
  "CHR ''c'' \<notin> set s \<Longrightarrow> py_split s ''col'' = [s]"
  using split_from_no_c [of s "[]"] by (simp add: py_split_def)

lemma digit_not_c: "is_digit c \<Longrightarrow> c \<noteq> CHR ''c''"
  by (auto simp: is_digit_def)

lemma digit_not_space: "is_digit c \<Longrightarrow> \<not> is_space c"
  by (auto simp: is_digit_def is_space_def)

lemma digit_not_sign: "is_digit c \<Longrightarrow> c \<noteq> CHR ''-'' \<and> c \<noteq> CHR ''+'' \<and> c \<noteq> CHR ''_''"
  by (auto simp: is_digit_def)

lemma digits_ok_all: "ds \<noteq> [] \<Longrightarrow> list_all is_digit ds \<Longrightarrow> digits_ok ds"
  by (induction ds rule: digits_ok.induct) (auto dest: digit_not_sign)

lemma filter_underscore_digits:
  "list_all is_digit ds \<Longrightarrow> filter (\<lambda>c. c \<noteq> CHR ''_'') ds = ds"
  by (induction ds) (auto dest: digit_not_sign)

lemma strip_digits: "ds \<noteq> [] \<Longrightarrow> list_all is_digit ds \<Longrightarrow> py_strip ds = ds"
proof -
  assume ne: "ds \<noteq> []" and dg: "list_all is_digit ds"
  from ne dg have h: "\<not> is_space (hd ds)"
    by (cases ds) (auto dest: digit_not_space)
  from ne h have a: "dropWhile is_space ds = ds"
    by (cases ds) auto
  from ne dg have "\<not> is_space (last ds)"
    by (auto simp: list_all_iff dest: digit_not_space)
  with ne have b: "dropWhile is_space (rev ds) = rev ds"
    by (cases "rev ds") (auto simp: last_rev [symmetric] hd_rev)
  show ?thesis by (simp add: py_strip_def a b)
qed

lemma py_int_digits:
  assumes "ds \<noteq> []" and "list_all is_digit ds"
  shows "py_int ds = Inr (dec_value ds)"
proof -
  from assms obtain c cs where ds: "ds = c # cs" and c: "is_digit c"
    by (cases ds) auto
  have "py_int_unsigned ds = Inr (dec_value ds)"
    using assms by (simp add: py_int_unsigned_def digits_ok_all filter_underscore_digits)
  then show ?thesis
    using assms ds digit_not_sign [OF c] by (simp add: py_int_def strip_digits)
qed

lemma parse_colname_digits:
  assumes "ds \<noteq> []" and "list_all is_digit ds"
  shows "parse_colname ds = Inr (dec_value ds)"
    and "parse_colname (''col'' @ ds) = Inr (dec_value ds)"
proof -
  from assms(2) have nc: "CHR ''c'' \<notin> set ds"
    by (auto simp: list_all_iff dest: digit_not_c)
  show "parse_colname ds = Inr (dec_value ds)"
    using assms by (simp add: parse_colname_def split_col_plain [OF nc] py_int_digits)
  show "parse_colname (''col'' @ ds) = Inr (dec_value ds)"
    unfolding parse_colname_def split_col_prefixed [OF nc]
    using assms by (simp add: py_int_digits)
qed

lemma py_int_one: "py_int ''1'' = Inr 1"
  by (simp add: py_int_def py_strip_def is_space_def py_int_unsigned_def is_digit_def
      dec_value_def digit_val_def)

lemma py_int_zero: "py_int ''0'' = Inr 0"
  by (simp add: py_int_def py_strip_def is_space_def py_int_unsigned_def is_digit_def
      dec_value_def digit_val_def)

lemma parse_colname_one: "parse_colname ''1'' = Inr 1"
  by (simp add: parse_colname_def py_split_def prefix_Cons py_int_one)

section \<open>Claims about detection and span attributes\<close>

text \<open>
  C9, amended: \<open>detect\<close> answers true only for content that holds the exact
  namespace declaration as a contiguous run of bytes; it answers false for every
  non-empty file name that does not end in \<^verbatim>\<open>.xml\<close>, whatever the content; and
  when no file name is given, or the empty one, or one that ends in \<^verbatim>\<open>.xml\<close>, the
  content alone decides: the answer is true exactly when the content holds the
  declaration.
\<close>

theorem detect_exact_namespace_and_extension:
  "(detect fstring fname \<longrightarrow> (\<exists>pre post. fstring = pre @ elsevier_ns @ post)) \<and>
   (fname = Some fn \<and> fn \<noteq> [] \<and> \<not> endswith fn ''.xml'' \<longrightarrow> \<not> detect fstring fname) \<and>
   (fname = None \<or> fname = Some [] \<or> (fname = Some fn \<and> endswith fn ''.xml'') \<longrightarrow>
      detect fstring fname = (\<exists>pre post. fstring = pre @ elsevier_ns @ post))"
  by (auto simp: detect_def py_contains_iff split: option.splits if_splits)

theorem detect_exact_namespace_and_extension_witness:
  "detect (''<r '' @ elsevier_ns @ ''>'') (Some ''a.xml'') \<and>
   (\<exists>pre post. ''<r '' @ elsevier_ns @ ''>'' = pre @ elsevier_ns @ post) \<and>
   \<not> detect (''<r '' @ elsevier_ns @ ''>'') (Some ''a.html'') \<and>
   detect (''<r '' @ elsevier_ns @ ''>'') None \<and>
   detect (''<r '' @ elsevier_ns @ ''>'') (Some []) \<and>
   \<not> detect ''<r>'' None \<and> \<not> detect ''<r>'' (Some [])"
proof -
  have d: "detect (''<r '' @ elsevier_ns @ ''>'') (Some ''a.xml'')"
    by (simp add: detect_def endswith_def suffix_Cons elsevier_ns_def)
  have n: "\<not> endswith ''a.html'' ''.xml''"
    by (simp add: endswith_def suffix_Cons)
  from detect_exact_namespace_and_extension
    [of "''<r '' @ elsevier_ns @ ''>''" "Some ''a.xml''" "''a.xml''"] d
  have a: "\<exists>pre post. ''<r '' @ elsevier_ns @ ''>'' = pre @ elsevier_ns @ post" by blast
  from detect_exact_namespace_and_extension
    [of "''<r '' @ elsevier_ns @ ''>''" "Some ''a.html''" "''a.html''"] n
  have b: "\<not> detect (''<r '' @ elsevier_ns @ ''>'') (Some ''a.html'')" by simp
  from detect_exact_namespace_and_extension [of "''<r '' @ elsevier_ns @ ''>''" None "[]"] a
  have c: "detect (''<r '' @ elsevier_ns @ ''>'') None" by simp
  from detect_exact_namespace_and_extension [of "''<r '' @ elsevier_ns @ ''>''" "Some []" "[]"] a
  have e: "detect (''<r '' @ elsevier_ns @ ''>'') (Some [])" by simp
  have m: "\<not> py_contains elsevier_ns ''<r>''"
    by (simp add: elsevier_ns_def)
  then have f: "\<not> detect ''<r>'' None" and g: "\<not> detect ''<r>'' (Some [])"
    by (simp_all add: detect_def)
  from d a b c e f g show ?thesis by blast
qed

text \<open>
  C9 as stated fails at the empty file name: it does not end in \<^verbatim>\<open>.xml\<close>, yet the
  guard \<^verbatim>\<open>if fname and ...\<close> treats it like no name at all and the content decides.
\<close>

theorem detect_empty_filename_counterexample:
  "\<not> endswith '''' ''.xml'' \<and> detect (''<r '' @ elsevier_ns @ ''>'') (Some '''')"
  by (simp add: detect_def endswith_def elsevier_ns_def)

text \<open>
  C10: the \<^verbatim>\<open>namest\<close> and \<^verbatim>\<open>nameend\<close> attributes are read by dropping the literal
  \<^verbatim>\<open>col\<close>: for a decimal numeral \<open>N\<close>, both \<^verbatim>\<open>colN\<close> and \<^verbatim>\<open>N\<close> give the column index
  \<open>N\<close>, and an absent attribute gives column 1.
\<close>

theorem colname_index:
  assumes "N \<noteq> []" and "list_all is_digit N"
    and "map_of (el_attrib td) ''namest'' = Some (''col'' @ N) \<or>
         map_of (el_attrib td) ''namest'' = Some N"
    and "map_of (el_attrib te) ''nameend'' = Some (''col'' @ N) \<or>
         map_of (el_attrib te) ''nameend'' = Some N"
    and "map_of (el_attrib tn) ''namest'' = None"
    and "map_of (el_attrib tn) ''nameend'' = None"
  shows "cell_namest td = Inr (dec_value N) \<and> cell_nameend te = Inr (dec_value N) \<and>
         cell_namest tn = Inr 1 \<and> cell_nameend tn = Inr 1"
  using assms parse_colname_digits [OF assms(1,2)]
  by (auto simp: cell_namest_def cell_nameend_def attr_get_def parse_colname_one)

theorem colname_index_witness:
  "cell_namest (Node ''ce:entry'' [(''namest'', ''col12'')] None None []) = Inr 12 \<and>
   cell_nameend (Node ''ce:entry'' [(''nameend'', ''12'')] None None []) = Inr 12 \<and>
   cell_namest (Node ''ce:entry'' [] None None []) = Inr 1 \<and>
   cell_nameend (Node ''ce:entry'' [] None None []) = Inr 1"
proof -
  have v: "dec_value ''12'' = 12"
    by (simp add: dec_value_def digit_val_def)
  have "''12'' \<noteq> []" and "list_all is_digit ''12''"
    by (simp_all add: is_digit_def)
  from colname_index [OF this,
      of "Node ''ce:entry'' [(''namest'', ''col12'')] None None []"
         "Node ''ce:entry'' [(''nameend'', ''12'')] None None []"
         "Node ''ce:entry'' [] None None []"]
  show ?thesis by (simp add: v)
qed

section \<open>Facts about table reconstruction\<close>

lemma max_len_Nil: "max_len [] = 0"
  by (simp add: max_len_def)

lemma max_len_Cons: "max_len (r # rs) = max (length r) (max_len rs)"
  by (simp add: max_len_def)

lemma max_len_append: "max_len (xs @ ys) = max (max_len xs) (max_len ys)"
  by (induction xs) (simp_all add: max_len_Nil max_len_Cons)

lemma length_le_max_len: "r \<in> set rows \<Longrightarrow> length r \<le> max_len rows"
  by (induction rows) (auto simp: max_len_Cons)

lemma pad_rows_eq:
  "pad_rows padded todo = padded @ map (pad_to (max_len (padded @ todo))) todo"
proof (induction todo arbitrary: padded)
  case Nil
  then show ?case by simp
next
  case (Cons r todo)
  let ?M = "max_len (padded @ r # todo)"
  let ?r' = "r @ replicate (?M - length r) (Cell [])"
  have le: "length r \<le> ?M"
    by (simp add: max_len_append max_len_Cons)
  then have len: "length ?r' = ?M" by simp
  have "max_len ((padded @ [?r']) @ todo) = max (max_len padded) (max ?M (max_len todo))"
    using len by (simp add: max_len_append max_len_Cons max_len_Nil)
  also have "\<dots> = ?M"
    by (simp add: max_len_append max_len_Cons)
  finally have M: "max_len ((padded @ [?r']) @ todo) = ?M" .
  have "pad_rows padded (r # todo) = pad_rows (padded @ [?r']) todo" by simp
  also have "\<dots> = (padded @ [?r']) @ map (pad_to ?M) todo"
    using Cons.IH [of "padded @ [?r']"] M by simp
  finally show ?case by (simp add: pad_to_def)
qed

lemma pad_rows_all: "pad_rows [] rows = map (pad_to (max_len rows)) rows"
  using pad_rows_eq [of "[]" rows] by simp

lemma length_pad_to: "length r \<le> m \<Longrightarrow> length (pad_to m r) = m"
  by (simp add: pad_to_def)

lemma finish_rows_eq:
  "finish_rows h =
     filter (list_ex el_truthy) (map (pad_to (max_len (grid_rows h))) (grid_rows h))"
  by (simp add: finish_rows_def pad_rows_all)

lemma finish_rows_length:
  "r \<in> set (finish_rows h) \<Longrightarrow> length r = max_len (grid_rows h)"
  by (auto simp: finish_rows_eq length_pad_to length_le_max_len)

lemma finish_rows_truthy:
  "r \<in> set (finish_rows h) \<Longrightarrow> list_ex el_truthy r"
  by (simp add: finish_rows_eq)

lemma not_truthy_empty_cell: "\<not> el_truthy (Cell [])"
  by (simp add: Cell_def)

text \<open>
  C3: the rows \<^verbatim>\<open>_parse_table_rows\<close> returns are the rows of the grid, each
  extended on the right with empty cells to the width of the widest one, without
  the rows that hold no non-empty cell; so they all have the same length and none
  of them consists of empty cells only.
\<close>

theorem table_rows_rectangular_nonempty:
  assumes "parse_table_rows rdr els refs specials = Inr rows"
  shows "\<exists>h. parse_table_grid rdr els refs specials = Inr h \<and>
           rows = filter (list_ex el_truthy)
                    (map (\<lambda>r. r @ replicate (max_len (grid_rows h) - length r) (Cell []))
                       (grid_rows h)) \<and>
           (\<forall>r \<in> set rows. length r = max_len (grid_rows h)) \<and>
           (\<forall>r \<in> set rows. \<exists>c \<in> set r. c \<noteq> Cell [] \<and> el_truthy c)"
proof -
  from assms obtain h where h: "parse_table_grid rdr els refs specials = Inr h"
    and rows: "rows = finish_rows h"
    by (auto simp: parse_table_rows_def split: sum.splits)
  have a: "rows = filter (list_ex el_truthy)
                    (map (\<lambda>r. r @ replicate (max_len (grid_rows h) - length r) (Cell []))
                       (grid_rows h))"
    using rows finish_rows_eq [of h] by (simp add: pad_to_def [abs_def])
  have b: "\<forall>r \<in> set rows. length r = max_len (grid_rows h)"
    using rows finish_rows_length by blast
  have c: "\<forall>r \<in> set rows. \<exists>c \<in> set r. c \<noteq> Cell [] \<and> el_truthy c"
  proof
    fix r assume "r \<in> set rows"
    then have "list_ex el_truthy r" using rows finish_rows_truthy by blast
    then obtain c where "c \<in> set r" "el_truthy c" by (auto simp: list_ex_iff)
    moreover from this have "c \<noteq> Cell []" using not_truthy_empty_cell by auto
    ultimately show "\<exists>c \<in> set r. c \<noteq> Cell [] \<and> el_truthy c" by blast
  qed
  from h a b c show ?thesis by blast
qed

theorem table_rows_rectangular_nonempty_witness:
  "parse_table_rows (child_reader None)
     [table_row [entry [] ''a'', entry [(''morerows'', ''1'')] ''b'']] [] [] =
     Inr [[Cell ''a'', Cell ''b''], [Cell ''b'', Cell '''']] \<and>
   (\<exists>h. parse_table_grid (child_reader None)
          [table_row [entry [] ''a'', entry [(''morerows'', ''1'')] ''b'']] [] [] = Inr h \<and>
        [[Cell ''a'', Cell ''b''], [Cell ''b'', Cell '''']] =
          filter (list_ex el_truthy)
            (map (\<lambda>r. r @ replicate (max_len (grid_rows h) - length r) (Cell []))
               (grid_rows h)) \<and>
        (\<forall>r \<in> set [[Cell ''a'', Cell ''b''], [Cell ''b'', Cell '''']].
           length r = max_len (grid_rows h)) \<and>
        (\<forall>r \<in> set [[Cell ''a'', Cell ''b''], [Cell ''b'', Cell '''']].
           \<exists>c \<in> set r. c \<noteq> Cell [] \<and> el_truthy c))"
proof -
  have e: "parse_table_rows (child_reader None)
     [table_row [entry [] ''a'', entry [(''morerows'', ''1'')] ''b'']] [] [] =
     Inr [[Cell ''a'', Cell ''b''], [Cell ''b'', Cell '''']]"
    by code_simp
  show ?thesis
    by (rule conjI [OF e table_rows_rectangular_nonempty [OF e]])
qed

lemma grid_at_None_iff: "grid_at h r c = None \<longleftrightarrow> c \<notin> occ h r"
  by (simp add: grid_at_def occ_def map_of_eq_None_iff)

lemma dict_has_occ: "dict_has (row_of h r) c \<longleftrightarrow> c \<in> occ h r"
  by (simp add: dict_has_def occ_def)

lemma next_free_id: "\<not> dict_has d c \<Longrightarrow> next_free d c = c"
  by (simp add: next_free.simps)

lemma next_free_free: "\<not> dict_has d (next_free d c)"
proof (induction d c rule: next_free.induct)
  case (1 d colnum)
  show ?case
  proof (cases "dict_has d colnum")
    case True
    with next_free.simps [of d colnum]
    have "next_free d colnum = next_free d (colnum + 1)" by simp
    with 1 True show ?thesis by simp
  next
    case False
    then show ?thesis by (simp add: next_free_id)
  qed
qed

lemma next_free_ge: "c \<le> next_free d c"
proof (induction d c rule: next_free.induct)
  case (1 d colnum)
  show ?case
  proof (cases "dict_has d colnum")
    case True
    with next_free.simps [of d colnum]
    have "next_free d colnum = next_free d (colnum + 1)" by simp
    with 1 True show ?thesis by simp
  next
    case False
    then show ?thesis by (simp add: next_free_id)
  qed
qed

lemma row_of_update: "row_of (AList.update r d h) r' = (if r' = r then d else row_of h r')"
  by (simp add: row_of_def update_conv')

lemma row_of_absent: "\<not> dict_has h r \<Longrightarrow> row_of h r = []"
proof -
  assume "\<not> dict_has h r"
  then have "map_of h r = None" by (simp add: dict_has_def map_of_eq_None_iff)
  then show ?thesis by (simp add: row_of_def)
qed

lemma place_rows_Suc:
  "place_rows (c0 # cs) row j (Suc n) (h, colnum) =
     place_rows (c0 # cs) row (Suc j) n
       (put h (row + j) (next_free (row_of h (row + j)) colnum) c0,
        next_free (row_of h (row + j)) colnum)"
proof (cases "dict_has h (row + j)")
  case True
  then show ?thesis by (simp add: put_def Let_def)
next
  case False
  then show ?thesis by (simp add: put_def Let_def row_of_update row_of_absent)
qed

lemma place_rows_Nil: "place_rows [] row j (Suc n) st = Inl IndexError"
  by (cases st) (simp add: Let_def)

lemma row_of_put:
  "row_of (put h r c v) r' = (if r' = r then AList.update c v (row_of h r) else row_of h r')"
  by (simp add: put_def row_of_update)

lemma occ_put: "occ (put h r c v) r' = (if r' = r then insert c (occ h r) else occ h r')"
  by (simp add: occ_def row_of_put dom_update)

lemma grid_at_put:
  "grid_at (put h r c v) r' c' = (if r' = r \<and> c' = c then Some v else grid_at h r' c')"
  by (simp add: grid_at_def row_of_put update_conv')

lemma keys_put: "fst ` set (put h r c v) = insert r (fst ` set h)"
  by (simp add: put_def dom_update)

subsection \<open>Placements never overwrite\<close>

lemma place_rows_mono:
  "place_rows cell row j n (h, col) = Inr (h', col') \<Longrightarrow> grid_at h r c = Some v \<Longrightarrow>
   grid_at h' r c = Some v"
proof (induction n arbitrary: j h col)
  case 0
  then show ?case by simp
next
  case (Suc n)
  show ?case
  proof (cases cell)
    case Nil
    with Suc.prems show ?thesis by (simp add: place_rows_Nil)
  next
    case (Cons c0 cs)
    let ?c1 = "next_free (row_of h (row + j)) col"
    have "c \<noteq> ?c1 \<or> r \<noteq> row + j"
    proof (rule ccontr)
      assume "\<not> (c \<noteq> ?c1 \<or> r \<noteq> row + j)"
      then have "c = ?c1" "r = row + j" by auto
      with next_free_free [of "row_of h (row + j)" col]
      have "c \<notin> occ h r" by (simp add: dict_has_occ)
      with Suc.prems(2) show False by (simp add: grid_at_None_iff [symmetric])
    qed
    then have "grid_at (put h (row + j) ?c1 c0) r c = Some v"
      using Suc.prems(2) by (auto simp: grid_at_put)
    moreover from Suc.prems(1) Cons
    have "place_rows cell row (Suc j) n (put h (row + j) ?c1 c0, ?c1) = Inr (h', col')"
      by (simp only: place_rows_Suc)
    ultimately show ?thesis using Suc.IH by blast
  qed
qed

lemma place_cols_mono:
  "place_cols cell row rs n (h, col) = Inr (h', col') \<Longrightarrow> grid_at h r c = Some v \<Longrightarrow>
   grid_at h' r c = Some v"
proof (induction n arbitrary: h col)
  case 0
  then show ?case by simp
next
  case (Suc n)
  from Suc.prems(1) obtain h1 c1 where
    a: "place_rows cell row 0 rs (h, col) = Inr (h1, c1)" and
    b: "place_cols cell row rs n (h1, c1 + 1) = Inr (h', col')"
    by (auto split: sum.splits)
  from place_rows_mono [OF a Suc.prems(2)] Suc.IH [OF b] show ?case by blast
qed

lemma parse_row_cells_mono:
  "parse_row_cells rdr refs specials row tds (h, col) = Inr (h', col') \<Longrightarrow>
   grid_at h r c = Some v \<Longrightarrow> grid_at h' r c = Some v"
proof (induction tds arbitrary: h col)
  case Nil
  then show ?case by simp
next
  case (Cons td tds)
  from Cons.prems(1) obtain ns ne mr h1 c1 where
    a: "place_cols (parse_text rdr CellC refs specials td) row (nat (mr + 1))
          (nat (ne - ns + 1)) (h, col) = Inr (h1, c1)" and
    b: "parse_row_cells rdr refs specials row tds (h1, c1) = Inr (h', col')"
    by (auto simp: Let_def split: sum.splits)
  from place_cols_mono [OF a Cons.prems(2)] Cons.IH [OF b] show ?case by blast
qed


section \<open>Facts about whitespace normalisation\<close>

lemma el_tail_fix_node: "el_tail (fix_node n) = el_tail n"
  by (cases n) (simp split: prod.splits)

lemma el_tag_fix_node: "el_tag (fix_node n) = el_tag n"
  by (cases n) (simp split: prod.splits)

lemma splice_children_plain:
  "\<forall>k \<in> set rest. el_tag k \<noteq> hsp_tag \<Longrightarrow>
   splice_children ptext prevs rest = (ptext, rev prevs @ map fix_node rest)"
  by (induction rest arbitrary: prevs) simp_all

lemma splice_text_no_text: "\<not> py_truthy (el_text el) \<Longrightarrow> splice_text ptext prevs el = (ptext, prevs)"
  by (simp add: splice_text_def)

lemma splice_tail_no_tail: "\<not> py_truthy (el_tail el) \<Longrightarrow> splice_tail ptext prevs el = (ptext, prevs)"
  by (simp add: splice_tail_def)

lemma splice_text_lost_parent:
  "\<not> py_truthy ptext \<Longrightarrow> splice_text ptext [] el = (ptext, [])"
  by (simp add: splice_text_def)

lemma splice_text_lost_previous:
  "\<not> py_truthy (el_tail previous) \<Longrightarrow>
   splice_text ptext (previous # others) el = (ptext, previous # others)"
  by (simp add: splice_text_def)

lemma spliced_children_leaf: "el_children el = [] \<Longrightarrow> spliced_children el = []"
  by (simp add: spliced_children_def)

lemma splice_tail_parent:
  "el_tail el = Some R \<Longrightarrow> R \<noteq> [] \<Longrightarrow> el_children el = [] \<Longrightarrow>
   splice_tail ptext [] el = (Some (joined (or_empty ptext) R), [])"
  by (simp add: splice_tail_def joined_def py_truthy_def or_empty_def)

lemma splice_tail_previous:
  "el_tail el = Some R \<Longrightarrow> R \<noteq> [] \<Longrightarrow> el_children el = [] \<Longrightarrow>
   splice_tail ptext (previous # others) el =
     (ptext, set_tail (Some (joined (or_empty (el_tail previous)) R)) previous # others)"
  by (simp add: splice_tail_def joined_def py_truthy_def or_empty_def)

lemma joined_one_space:
  assumes "T \<noteq> []" and "last T \<noteq> CHR '' ''" and "\<not> startswith R ''  ''" and "R \<noteq> []"
  shows "\<exists>R'. joined T R = T @ CHR '' '' # R' \<and> \<not> startswith R' '' ''"
proof (cases "startswith R '' ''")
  case True
  then obtain R' where R: "R = CHR '' '' # R'" by (auto simp: startswith_def prefix_def)
  with assms(3) have "\<not> startswith R' '' ''" by (auto simp: startswith_def prefix_def)
  with True R show ?thesis by (auto simp: joined_def)
next
  case False
  then show ?thesis by (auto simp: joined_def)
qed

text \<open>
  C6: when the target of the text of a \<^verbatim>\<open>ce:hsp\<close> node is empty (a parent without
  text when the node comes first, a previous sibling without tail otherwise), the
  pass removes the node and its text is appended nowhere.
\<close>

theorem hsp_text_lost:
  assumes "el_tag el = hsp_tag" and "py_truthy (el_text el)"
    and "\<not> py_truthy (el_tail el)" and "el_children el = []"
    and "\<not> py_truthy tx" and "el_tag prev \<noteq> hsp_tag" and "\<not> py_truthy (el_tail prev)"
  shows "fix_elsevier_xml_whitespace (Node tg a tx tt [el]) = Node tg a tx tt [] \<and>
         fix_elsevier_xml_whitespace (Node tg a tx' tt [prev, el]) =
           Node tg a tx' tt [fix_node prev]"
  using assms
  by (simp add: fix_elsevier_xml_whitespace_def splice_text_lost_parent
      splice_text_lost_previous splice_tail_no_tail spliced_children_leaf el_tail_fix_node)

theorem hsp_text_lost_witness:
  "py_truthy (el_text (Node ''ce:hsp'' [] (Some ''x'') None [])) \<and>
   fix_elsevier_xml_whitespace
     (Node ''ce:para'' [] None None [Node ''ce:hsp'' [] (Some ''x'') None []]) =
     Node ''ce:para'' [] None None [] \<and>
   fix_elsevier_xml_whitespace
     (Node ''ce:para'' [] (Some ''a'') None
        [Node ''ce:bold'' [] (Some ''b'') None [], Node ''ce:hsp'' [] (Some ''x'') None []]) =
     Node ''ce:para'' [] (Some ''a'') None [fix_node (Node ''ce:bold'' [] (Some ''b'') None [])]"
proof -
  have t: "py_truthy (el_text (Node ''ce:hsp'' [] (Some ''x'') None []))"
    by (simp add: py_truthy_def)
  from hsp_text_lost [of "Node ''ce:hsp'' [] (Some ''x'') None []" None
      "Node ''ce:bold'' [] (Some ''b'') None []" "''ce:para''" "[]" None "Some ''a''"] t
  show ?thesis by (simp add: py_truthy_def hsp_tag_def)
qed

text \<open>
  C7 as stated fails both ways: a \<^verbatim>\<open>ce:hsp\<close> node with neither text nor tail between
  two elements is removed and leaves no space, and one whose tail follows a text
  that already ends with a space leaves two.
\<close>

theorem hsp_junction_counterexample:
  "fix_elsevier_xml_whitespace
     (Node ''ce:para'' [] None None
        [Node ''ce:italic'' [] (Some ''foo'') None [], Node ''ce:hsp'' [] None None [],
         Node ''ce:bold'' [] (Some ''bar'') None []]) =
   Node ''ce:para'' [] None None
     [Node ''ce:italic'' [] (Some ''foo'') None [], Node ''ce:bold'' [] (Some ''bar'') None []] \<and>
   fix_elsevier_xml_whitespace
     (Node ''ce:para'' [] (Some ''foo '') None [Node ''ce:hsp'' [] None (Some ''bar'') []]) =
   Node ''ce:para'' [] (Some ''foo  bar'') None []"
  by (simp add: fix_elsevier_xml_whitespace_def hsp_tag_def splice_text_def splice_tail_def
      spliced_children_def py_truthy_def or_empty_def startswith_def)

text \<open>
  The step in the two simplest positions, seen on the whole pass: the node is the
  first child, or the second after a sibling that is no \<^verbatim>\<open>ce:hsp\<close>, and no other
  \<^verbatim>\<open>ce:hsp\<close> node follows among the siblings.
\<close>

lemma hsp_junction_first_positions:
  assumes "el_tag el = hsp_tag" and "\<not> py_truthy (el_text el)" and "el_children el = []"
    and "el_tail el = Some R" and "R \<noteq> []"
    and "\<forall>k \<in> set rest. el_tag k \<noteq> hsp_tag" and "el_tag prev \<noteq> hsp_tag"
  shows "fix_elsevier_xml_whitespace (Node tg a tx tt (el # rest)) =
           Node tg a (Some (joined (or_empty tx) R)) tt (map fix_node rest) \<and>
         fix_elsevier_xml_whitespace (Node tg a tx tt (prev # el # rest)) =
           Node tg a tx tt
             (set_tail (Some (joined (or_empty (el_tail prev)) R)) (fix_node prev) #
              map fix_node rest) \<and>
         (T \<noteq> [] \<and> last T \<noteq> CHR '' '' \<and> \<not> startswith R ''  '' \<longrightarrow>
            (\<exists>R'. joined T R = T @ CHR '' '' # R' \<and> \<not> startswith R' '' ''))"
proof -
  have a: "fix_elsevier_xml_whitespace (Node tg a tx tt (el # rest)) =
           Node tg a (Some (joined (or_empty tx) R)) tt (map fix_node rest)"
    using assms
    by (simp add: fix_elsevier_xml_whitespace_def splice_text_no_text splice_tail_parent
        spliced_children_leaf splice_children_plain)
  have b: "fix_elsevier_xml_whitespace (Node tg a tx tt (prev # el # rest)) =
           Node tg a tx tt
             (set_tail (Some (joined (or_empty (el_tail prev)) R)) (fix_node prev) #
              map fix_node rest)"
    using assms
    by (simp add: fix_elsevier_xml_whitespace_def splice_text_no_text splice_tail_previous
        spliced_children_leaf splice_children_plain el_tail_fix_node)
  have c: "T \<noteq> [] \<and> last T \<noteq> CHR '' '' \<and> \<not> startswith R ''  '' \<longrightarrow>
            (\<exists>R'. joined T R = T @ CHR '' '' # R' \<and> \<not> startswith R' '' '')"
    using joined_one_space [of T R] assms(5) by blast
  from a b c show ?thesis by blast
qed

text \<open>
  C7, amended: for every \<^verbatim>\<open>ce:hsp\<close> node without text and without children,
  wherever it stands among its siblings (\<open>ptext\<close> and \<open>prevs\<close> are the text of the
  parent and the siblings before the node as the pass has left them, \<open>rest\<close> the
  siblings after it): when its tail \<open>R\<close> is not empty, the step joins the text
  before the node (the text of the parent when no sibling precedes, the tail of
  the previous sibling otherwise) to \<open>R\<close>, with one space put between them unless
  \<open>R\<close> starts with a space, removes the node and goes on with the siblings that
  follow; when its tail is empty it removes the node and adds no space. So exactly
  one space stands at the junction whenever the text before is not empty, does not
  end with a space, and \<open>R\<close> does not start with two.
\<close>

theorem hsp_junction_one_space:
  assumes "el_tag el = hsp_tag" and "\<not> py_truthy (el_text el)" and "el_children el = []"
  shows "(el_tail el = Some R \<and> R \<noteq> [] \<longrightarrow>
            splice_children ptext [] (el # rest) =
              splice_children (Some (joined (or_empty ptext) R)) [] rest \<and>
            splice_children ptext (previous # others) (el # rest) =
              splice_children ptext
                (set_tail (Some (joined (or_empty (el_tail previous)) R)) previous # others)
                rest) \<and>
         (\<not> py_truthy (el_tail el) \<longrightarrow>
            splice_children ptext prevs (el # rest) = splice_children ptext prevs rest) \<and>
         (T \<noteq> [] \<and> last T \<noteq> CHR '' '' \<and> R \<noteq> [] \<and> \<not> startswith R ''  '' \<longrightarrow>
            (\<exists>R'. joined T R = T @ CHR '' '' # R' \<and> \<not> startswith R' '' ''))"
proof -
  have a: "splice_children ptext [] (el # rest) =
             splice_children (Some (joined (or_empty ptext) R)) [] rest"
    if "el_tail el = Some R" and "R \<noteq> []"
    using assms that
    by (simp add: splice_text_no_text splice_tail_parent spliced_children_leaf)
  have b: "splice_children ptext (previous # others) (el # rest) =
             splice_children ptext
               (set_tail (Some (joined (or_empty (el_tail previous)) R)) previous # others) rest"
    if "el_tail el = Some R" and "R \<noteq> []"
    using assms that
    by (simp add: splice_text_no_text splice_tail_previous spliced_children_leaf)
  have c: "splice_children ptext prevs (el # rest) = splice_children ptext prevs rest"
    if "\<not> py_truthy (el_tail el)"
    using assms that
    by (simp add: splice_text_no_text splice_tail_no_tail spliced_children_leaf)
  have d: "T \<noteq> [] \<and> last T \<noteq> CHR '' '' \<and> R \<noteq> [] \<and> \<not> startswith R ''  '' \<longrightarrow>
            (\<exists>R'. joined T R = T @ CHR '' '' # R' \<and> \<not> startswith R' '' '')"
    using joined_one_space [of T R] by blast
  from a b c d show ?thesis by blast
qed

theorem hsp_junction_one_space_witness:
  "splice_children (Some ''foo'') []
     [Node ''ce:hsp'' [] None (Some ''bar'') [], Node ''ce:hsp'' [] None (Some '' baz'') [],
      Node ''ce:hsp'' [] None None []] =
     (Some ''foo bar baz'', []) \<and>
   splice_children None [Node ''ce:italic'' [] None (Some ''foo'') []]
     [Node ''ce:hsp'' [] None (Some ''bar'') [], Node ''ce:hsp'' [] None None []] =
     (None, [Node ''ce:italic'' [] None (Some ''foo bar'') []]) \<and>
   (\<exists>R'. joined ''foo'' ''bar'' = ''foo'' @ CHR '' '' # R' \<and> \<not> startswith R' '' '')"
proof -
  let ?bar = "Node ''ce:hsp'' [] None (Some ''bar'') []"
  let ?baz = "Node ''ce:hsp'' [] None (Some '' baz'') []"
  let ?nil = "Node ''ce:hsp'' [] None None []"
  let ?it = "Node ''ce:italic'' [] None (Some ''foo'') []"
  have h: "el_tag ?bar = hsp_tag" "\<not> py_truthy (el_text ?bar)" "el_children ?bar = []"
    "el_tag ?baz = hsp_tag" "\<not> py_truthy (el_text ?baz)" "el_children ?baz = []"
    "el_tag ?nil = hsp_tag" "\<not> py_truthy (el_text ?nil)" "el_children ?nil = []"
    by (simp_all add: hsp_tag_def py_truthy_def)
  have t: "\<not> py_truthy (el_tail ?nil)" by (simp add: py_truthy_def)
  have j: "joined ''foo'' ''bar'' = ''foo bar''" "joined ''foo bar'' '' baz'' = ''foo bar baz''"
    by (simp_all add: joined_def startswith_def)
  from hsp_junction_one_space [OF h(1,2,3), where R = "''bar''" and ptext = "Some ''foo''"
      and rest = "[?baz, ?nil]"]
  have 1: "splice_children (Some ''foo'') [] [?bar, ?baz, ?nil] =
      splice_children (Some ''foo bar'') [] [?baz, ?nil]"
    by (simp add: j or_empty_def)
  from hsp_junction_one_space [OF h(4,5,6), where R = "'' baz''" and ptext = "Some ''foo bar''"
      and rest = "[?nil]"]
  have 2: "splice_children (Some ''foo bar'') [] [?baz, ?nil] =
      splice_children (Some ''foo bar baz'') [] [?nil]"
    by (simp add: j or_empty_def)
  from hsp_junction_one_space [OF h(7,8,9), where ptext = "Some ''foo bar baz''" and rest = "[]"
      and prevs = "[]"] t
  have 3: "splice_children (Some ''foo bar baz'') [] [?nil] = (Some ''foo bar baz'', [])"
    by simp
  from hsp_junction_one_space [OF h(1,2,3), where R = "''bar''" and ptext = None and rest = "[?nil]"
      and previous = ?it and others = "[]"]
  have 4: "splice_children None [?it] [?bar, ?nil] =
      splice_children None [Node ''ce:italic'' [] None (Some ''foo bar'') []] [?nil]"
    by (simp add: j or_empty_def)
  from hsp_junction_one_space [OF h(7,8,9), where ptext = None and rest = "[]"
      and prevs = "[Node ''ce:italic'' [] None (Some ''foo bar'') []]"] t
  have 5: "splice_children None [Node ''ce:italic'' [] None (Some ''foo bar'') []] [?nil] =
      (None, [Node ''ce:italic'' [] None (Some ''foo bar'') []])"
    by simp
  have p: "\<not> startswith ''bar'' ''  ''" by (simp add: startswith_def)
  from hsp_junction_one_space [OF h(1,2,3), where R = "''bar''" and T = "''foo''"] p
  have 6: "\<exists>R'. joined ''foo'' ''bar'' = ''foo'' @ CHR '' '' # R' \<and> \<not> startswith R' '' ''"
    by simp
  from 1 2 3 4 5 6 show ?thesis by simp
qed

section \<open>Facts about figures, metadata and the top-level parse\<close>

lemma filename_candidates_result:
  "filename_candidates img_id filenames = Inl e \<Longrightarrow> e = TypeError"
  by (induction filenames arbitrary: e) (auto split: option.splits sum.splits)

text \<open>
  C1: a figure without a \<^verbatim>\<open>ce:link\<close> never yields a Figure. \<^verbatim>\<open>img_id\<close> is then the
  empty string, which is not \<^verbatim>\<open>None\<close>, so the URL is resolved all the same and
  \<^verbatim>\<open>link[0]\<close> of line 247 fails on the empty list (unless the caption or a file
  name without text has failed before).
\<close>

theorem parse_figure_no_link_raises:
  assumes "css rdr figure_link_css el = []"
  shows "parse_figure rdr el root refs specials = Inl IndexError \<or>
         parse_figure rdr el root refs specials = Inl TypeError"
proof (cases "filename_candidates [] (css rdr img_filetypes_css root)")
  case (Inl e)
  then have "e = TypeError" by (rule filename_candidates_result)
  with Inl assms show ?thesis
    by (auto simp: parse_figure_def Let_def split: list.splits sum.splits)
next
  case (Inr cands)
  with assms show ?thesis
    by (auto simp: parse_figure_def Let_def split: list.splits sum.splits)
qed

theorem parse_figure_no_link_raises_witness:
  "css (child_reader None) figure_link_css
     (Node ''ce|figure'' [] None None [Node ''ce|figure ce|caption'' [] (Some ''A cell'') None []])
     = [] \<and>
   parse_figure (child_reader None)
     (Node ''ce|figure'' [] None None [Node ''ce|figure ce|caption'' [] (Some ''A cell'') None []])
     (Node ''default|full-text-retrieval-response'' [] None None []) [] [] = Inl IndexError"
proof -
  have h: "css (child_reader None) figure_link_css
     (Node ''ce|figure'' [] None None [Node ''ce|figure ce|caption'' [] (Some ''A cell'') None []])
     = []"
    by (simp add: child_reader_def child_css_def figure_link_css_def)
  have n: "parse_figure (child_reader None)
     (Node ''ce|figure'' [] None None [Node ''ce|figure ce|caption'' [] (Some ''A cell'') None []])
     (Node ''default|full-text-retrieval-response'' [] None None []) [] [] \<noteq> Inl TypeError"
    by (simp add: parse_figure_def child_reader_def child_css_def figure_link_css_def
        figure_caption_css_def img_filetypes_css_def)
  from parse_figure_no_link_raises [OF h,
      of "Node ''default|full-text-retrieval-response'' [] None None []" "[]" "[]"] n h
  show ?thesis by blast
qed

text \<open>
  C8: when neither the HTML URL selector nor the article identifier selector
  matches, \<^verbatim>\<open>pii[0]\<close> in the fallback of line 197 fails on the empty list and no
  MetaData is returned (a PDF URL node without text fails before, at line 196).
\<close>

theorem parse_metadata_no_identifier_raises:
  assumes "css rdr (metadata_html_url_css rdr) el = []"
    and "css rdr metadata_pii_css el = []"
  shows "parse_metadata rdr el refs specials = Inl IndexError \<or>
         parse_metadata rdr el refs specials = Inl TypeError"
  using assms
  by (auto simp: parse_metadata_def Let_def prefixed_url_def split: list.splits option.splits)

theorem parse_metadata_no_identifier_raises_witness:
  "css (child_reader None) (metadata_html_url_css (child_reader None))
     (Node ''xocs|meta'' [] None None
        [Node ''xocs|normalized-article-title'' [] (Some ''A title'') None []]) = [] \<and>
   css (child_reader None) metadata_pii_css
     (Node ''xocs|meta'' [] None None
        [Node ''xocs|normalized-article-title'' [] (Some ''A title'') None []]) = [] \<and>
   parse_metadata (child_reader None)
     (Node ''xocs|meta'' [] None None
        [Node ''xocs|normalized-article-title'' [] (Some ''A title'') None []]) [] []
     = Inl IndexError"
proof -
  have h: "css (child_reader None) (metadata_html_url_css (child_reader None))
     (Node ''xocs|meta'' [] None None
        [Node ''xocs|normalized-article-title'' [] (Some ''A title'') None []]) = []"
    by (simp add: child_reader_def child_css_def)
  have p: "css (child_reader None) metadata_pii_css
     (Node ''xocs|meta'' [] None None
        [Node ''xocs|normalized-article-title'' [] (Some ''A title'') None []]) = []"
    by (simp add: child_reader_def child_css_def metadata_pii_css_def)
  have n: "parse_metadata (child_reader None)
     (Node ''xocs|meta'' [] None None
        [Node ''xocs|normalized-article-title'' [] (Some ''A title'') None []]) [] []
     \<noteq> Inl TypeError"
    by (simp add: parse_metadata_def Let_def child_reader_def child_css_def metadata_pii_css_def)
  from parse_metadata_no_identifier_raises [OF h p, of "[]" "[]"] n h p
  show ?thesis by blast
qed

text \<open>
  C2: \<^verbatim>\<open>parse\<close> raises the reader error when no tree can be built; when the tree is
  built but holds no root element, the unguarded \<^verbatim>\<open>[0]\<close> of line 257 raises an
  index error instead.
\<close>

theorem parse_root_errors:
  "(make_tree rdr fstring = None \<longrightarrow> parse rdr fstring = Inl ReaderError) \<and>
   (make_tree rdr fstring = Some tree \<and> css rdr root_css tree = [] \<longrightarrow>
      parse rdr fstring = Inl IndexError)"
  by (simp add: parse_def)

theorem parse_root_errors_witness:
  "parse (child_reader None) ''<a>'' = Inl ReaderError \<and>
   css (child_reader (Some (Node ''html'' [] None None []))) root_css
     (Node ''html'' [] None None []) = [] \<and>
   parse (child_reader (Some (Node ''html'' [] None None []))) ''<html/>'' = Inl IndexError"
proof -
  have m: "make_tree (child_reader None) ''<a>'' = None"
    by (simp add: child_reader_def)
  have t: "make_tree (child_reader (Some (Node ''html'' [] None None []))) ''<html/>'' =
      Some (Node ''html'' [] None None [])"
    by (simp add: child_reader_def)
  have c: "css (child_reader (Some (Node ''html'' [] None None []))) root_css
     (Node ''html'' [] None None []) = []"
    by (simp add: child_reader_def child_css_def)
  from parse_root_errors [of "child_reader None" "''<a>''"] m
  have 1: "parse (child_reader None) ''<a>'' = Inl ReaderError" by blast
  from parse_root_errors [of "child_reader (Some (Node ''html'' [] None None []))" "''<html/>''"
      "Node ''html'' [] None None []"] t c
  have 2: "parse (child_reader (Some (Node ''html'' [] None None []))) ''<html/>'' = Inl IndexError"
    by blast
  from 1 c 2 show ?thesis by blast
qed

section \<open>Facts about metadata\<close>

text \<open>
  What \<^verbatim>\<open>_parse_metadata\<close> returns when it does return: every field but the HTML
  URL is \<^verbatim>\<open>None\<close> when its selector matches nothing, the PDF URL is the prefix
  followed by the matched text, and the HTML URL is the prefix followed by the
  matched text or else by the article identifier.
\<close>

lemma parse_metadata_fields:
  assumes "parse_metadata rdr el refs specials = Inr ms"
  shows "\<exists>m. ms = [MetaDataEl m] \<and>
     md_title m = first_text (css rdr metadata_title_css el) \<and>
     md_authors m = (if css rdr metadata_author_css el = [] then None
                     else Some (map el_text (css rdr metadata_author_css el))) \<and>
     md_publisher m = first_text (css rdr metadata_publisher_css el) \<and>
     md_journal m = first_text (css rdr metadata_journal_css el) \<and>
     md_date m = first_text (css rdr metadata_date_css el) \<and>
     md_language m = first_text (css rdr (metadata_language_css rdr) el) \<and>
     md_volume m = first_text (css rdr metadata_volume_css el) \<and>
     md_issue m = first_text (css rdr metadata_issue_css el) \<and>
     md_firstpage m = first_text (css rdr metadata_firstpage_css el) \<and>
     md_lastpage m = first_text (css rdr metadata_lastpage_css el) \<and>
     md_doi m = first_text (css rdr metadata_doi_css el) \<and>
     md_pdf_url m = (case css rdr (metadata_pdf_url_css rdr) el of
                       [] \<Rightarrow> None | p # _ \<Rightarrow> Some (url_prefix @ or_empty (el_text p))) \<and>
     md_html_url m = (case css rdr (metadata_html_url_css rdr) el of
                        u # _ \<Rightarrow> Some (url_prefix @ or_empty (el_text u))
                      | [] \<Rightarrow> Some (url_prefix @
                                or_empty (first_text (css rdr metadata_pii_css el))))"
proof -
  let ?pdf = "case css rdr (metadata_pdf_url_css rdr) el of
      [] \<Rightarrow> Inr None
    | p # _ \<Rightarrow> (case prefixed_url p of Inl e \<Rightarrow> Inl e | Inr u \<Rightarrow> Inr (Some u))"
  let ?html = "case css rdr (metadata_html_url_css rdr) el of
      u # _ \<Rightarrow> prefixed_url u
    | [] \<Rightarrow> (case css rdr metadata_pii_css el of [] \<Rightarrow> Inl IndexError | p # _ \<Rightarrow> prefixed_url p)"
  from assms obtain pdf html where pdf: "?pdf = Inr pdf" and html: "?html = Inr html"
    and ms: "ms = [MetaDataEl
       \<lparr> md_title = first_text (css rdr metadata_title_css el),
         md_authors = (if css rdr metadata_author_css el = [] then None
                       else Some (map el_text (css rdr metadata_author_css el))),
         md_publisher = first_text (css rdr metadata_publisher_css el),
         md_journal = first_text (css rdr metadata_journal_css el),
         md_date = first_text (css rdr metadata_date_css el),
         md_language = first_text (css rdr (metadata_language_css rdr) el),
         md_volume = first_text (css rdr metadata_volume_css el),
         md_issue = first_text (css rdr metadata_issue_css el),
         md_firstpage = first_text (css rdr metadata_firstpage_css el),
         md_lastpage = first_text (css rdr metadata_lastpage_css el),
         md_doi = first_text (css rdr metadata_doi_css el),
         md_pdf_url = pdf,
         md_html_url = Some html \<rparr>]"
    unfolding parse_metadata_def Let_def by (simp split: sum.splits)
  have p: "pdf = (case css rdr (metadata_pdf_url_css rdr) el of
                       [] \<Rightarrow> None | p # _ \<Rightarrow> Some (url_prefix @ or_empty (el_text p)))"
    using pdf by (auto simp: prefixed_url_def or_empty_def split: list.splits option.splits)
  have h: "Some html = (case css rdr (metadata_html_url_css rdr) el of
                        u # _ \<Rightarrow> Some (url_prefix @ or_empty (el_text u))
                      | [] \<Rightarrow> Some (url_prefix @
                                or_empty (first_text (css rdr metadata_pii_css el))))"
    using html
    by (auto simp: prefixed_url_def or_empty_def first_text_def split: list.splits option.splits)
  show ?thesis
    unfolding ms using p h by simp
qed

lemma first_text_none: "first_text [] = None"
  by (simp add: first_text_def)

section \<open>Row-spanning cells keep their column\<close>

















section \<open>Tables without span attributes\<close>

lemma no_span_attrs:
  assumes "no_span td"
  shows "cell_namest td = Inr 1" and "cell_nameend td = Inr 1" and "cell_morerows td = Inr 0"
  using assms
  by (simp_all add: no_span_def cell_namest_def cell_nameend_def cell_morerows_def attr_get_def
      parse_colname_one py_int_zero)

lemma plain_cell_step:
  assumes "no_span td" and "parse_text rdr CellC refs specials td \<noteq> []"
  shows "parse_row_cells rdr refs specials row (td # tds) (h, col) =
     parse_row_cells rdr refs specials row tds
       (put h row (next_free (row_of h row) col) (hd (parse_text rdr CellC refs specials td)),
        next_free (row_of h row) col + 1)"
proof -
  from assms(2) obtain v vs where cell: "parse_text rdr CellC refs specials td = v # vs"
    by (cases "parse_text rdr CellC refs specials td") auto
  have pr: "place_rows (v # vs) row 0 (Suc 0) (h, col) =
      Inr (put h row (next_free (row_of h row) col) v, next_free (row_of h row) col)"
    by (simp only: place_rows_Suc place_rows.simps(1) add_0_right)
  have pc: "place_cols (v # vs) row (Suc 0) (Suc 0) (h, col) =
      Inr (put h row (next_free (row_of h row) col) v, next_free (row_of h row) col + 1)"
    by (simp add: pr del: place_rows.simps)
  have spans: "nat ((1::int) - 1 + 1) = Suc 0" "nat ((0::int) + 1) = Suc 0"
    by simp_all
  show ?thesis
    unfolding parse_row_cells.simps Let_def no_span_attrs [OF assms(1)] sum.case spans cell pc
    by (simp add: cell)
qed

lemma plain_row:
  assumes "\<forall>td \<in> set tds. no_span td \<and> parse_text rdr CellC refs specials td \<noteq> []"
    and "\<forall>c. col \<le> c \<and> c < col + length tds \<longrightarrow> c \<notin> occ h row"
  shows "\<exists>h'. parse_row_cells rdr refs specials row tds (h, col) = Inr (h', col + length tds) \<and>
     (\<forall>r. r \<noteq> row \<longrightarrow> row_of h' r = row_of h r) \<and>
     occ h' row = occ h row \<union> {col..<col + length tds} \<and>
     (\<forall>c < length tds.
        grid_at h' row (col + c) = Some (hd (parse_text rdr CellC refs specials (tds ! c)))) \<and>
     (\<forall>r. r \<in> fst ` set h' \<longleftrightarrow> r \<in> fst ` set h \<or> (r = row \<and> tds \<noteq> []))"
  using assms
proof (induction tds arbitrary: h col)
  case Nil
  then show ?case by simp
next
  case (Cons td tds)
  let ?v = "hd (parse_text rdr CellC refs specials td)"
  let ?h1 = "put h row col ?v"
  from Cons.prems(2) have "col \<notin> occ h row" by simp
  then have nf: "next_free (row_of h row) col = col"
    by (simp add: next_free_id dict_has_occ)
  from Cons.prems(1) have td: "no_span td" "parse_text rdr CellC refs specials td \<noteq> []"
    by simp_all
  have step: "parse_row_cells rdr refs specials row (td # tds) (h, col) =
      parse_row_cells rdr refs specials row tds (?h1, col + 1)"
    by (simp only: plain_cell_step [OF td] nf)
  have free1: "\<forall>c. col + 1 \<le> c \<and> c < col + 1 + length tds \<longrightarrow> c \<notin> occ ?h1 row"
    using Cons.prems(2) by (simp add: occ_put)
  from Cons.prems(1) have rest: "\<forall>td \<in> set tds. no_span td \<and> parse_text rdr CellC refs specials td \<noteq> []"
    by simp
  from Cons.IH [OF rest free1] obtain h' where
    run: "parse_row_cells rdr refs specials row tds (?h1, col + 1) = Inr (h', col + 1 + length tds)" and
    rows: "\<forall>r. r \<noteq> row \<longrightarrow> row_of h' r = row_of ?h1 r" and
    oc: "occ h' row = occ ?h1 row \<union> {col + 1..<col + 1 + length tds}" and
    gr: "\<forall>c < length tds.
        grid_at h' row (col + 1 + c) = Some (hd (parse_text rdr CellC refs specials (tds ! c)))" and
    ks: "\<forall>r. r \<in> fst ` set h' \<longleftrightarrow> r \<in> fst ` set ?h1 \<or> (r = row \<and> tds \<noteq> [])"
    by blast
  have len: "col + 1 + length tds = col + length (td # tds)" by simp
  have a: "parse_row_cells rdr refs specials row (td # tds) (h, col) =
      Inr (h', col + length (td # tds))"
    by (simp only: step run len)
  have b: "\<forall>r. r \<noteq> row \<longrightarrow> row_of h' r = row_of h r"
    using rows by (simp add: row_of_put)
  have iv: "{col..<col + length (td # tds)} = insert col {col + 1..<col + 1 + length tds}"
    by auto
  have c: "occ h' row = occ h row \<union> {col..<col + length (td # tds)}"
    unfolding iv oc by (simp add: occ_put)
  have first: "grid_at h' row col = Some ?v"
  proof -
    have "grid_at ?h1 row col = Some ?v" by (simp add: grid_at_put)
    from parse_row_cells_mono [OF run this] show ?thesis .
  qed
  have d: "\<forall>c < length (td # tds).
        grid_at h' row (col + c) = Some (hd (parse_text rdr CellC refs specials ((td # tds) ! c)))"
  proof (intro allI impI)
    fix c assume c: "c < length (td # tds)"
    show "grid_at h' row (col + c) = Some (hd (parse_text rdr CellC refs specials ((td # tds) ! c)))"
    proof (cases c)
      case 0
      with first show ?thesis by simp
    next
      case (Suc c')
      with c have "c' < length tds" by simp
      with gr have "grid_at h' row (col + 1 + c') =
          Some (hd (parse_text rdr CellC refs specials (tds ! c')))" by blast
      then show ?thesis by (simp add: Suc)
    qed
  qed
  have k1: "fst ` set ?h1 = insert row (fst ` set h)" by (rule keys_put)
  have e: "\<forall>r. r \<in> fst ` set h' \<longleftrightarrow> r \<in> fst ` set h \<or> (r = row \<and> td # tds \<noteq> [])"
  proof
    fix r
    from ks have "r \<in> fst ` set h' \<longleftrightarrow> r \<in> fst ` set ?h1 \<or> (r = row \<and> tds \<noteq> [])" by blast
    then show "r \<in> fst ` set h' \<longleftrightarrow> r \<in> fst ` set h \<or> (r = row \<and> td # tds \<noteq> [])"
      unfolding k1 by auto
  qed
  show ?case
    by (rule exI [of _ h']) (intro conjI a b c d e)
qed

lemma place_rows_local:
  "place_rows cell row j n (h, col) = Inr (h', col') \<Longrightarrow> r < row + j \<Longrightarrow>
   row_of h' r = row_of h r"
proof (induction n arbitrary: j h col)
  case 0
  then show ?case by simp
next
  case (Suc n)
  show ?case
  proof (cases cell)
    case Nil
    with Suc.prems show ?thesis by (simp add: place_rows_Nil)
  next
    case (Cons c0 cs)
    let ?c1 = "next_free (row_of h (row + j)) col"
    from Suc.prems(1) Cons
    have run: "place_rows cell row (Suc j) n (put h (row + j) ?c1 c0, ?c1) = Inr (h', col')"
      by (simp only: place_rows_Suc)
    from Suc.prems(2) have "r < row + Suc j" by simp
    from Suc.IH [OF run this] have "row_of h' r = row_of (put h (row + j) ?c1 c0) r" .
    with Suc.prems(2) show ?thesis by (simp add: row_of_put)
  qed
qed

lemma place_cols_local:
  "place_cols cell row rs n (h, col) = Inr (h', col') \<Longrightarrow> r < row \<Longrightarrow>
   row_of h' r = row_of h r"
proof (induction n arbitrary: h col)
  case 0
  then show ?case by simp
next
  case (Suc n)
  from Suc.prems(1) obtain h1 c1 where
    a: "place_rows cell row 0 rs (h, col) = Inr (h1, c1)" and
    b: "place_cols cell row rs n (h1, c1 + 1) = Inr (h', col')"
    by (auto split: sum.splits)
  from Suc.prems(2) have "r < row + 0" by simp
  from place_rows_local [OF a this] Suc.IH [OF b Suc.prems(2)] show ?case by simp
qed

lemma parse_row_cells_local:
  "parse_row_cells rdr refs specials row tds (h, col) = Inr (h', col') \<Longrightarrow> r < row \<Longrightarrow>
   row_of h' r = row_of h r"
proof (induction tds arbitrary: h col)
  case Nil
  then show ?case by simp
next
  case (Cons td tds)
  from Cons.prems(1) obtain ns ne mr h1 c1 where
    a: "place_cols (parse_text rdr CellC refs specials td) row (nat (mr + 1))
          (nat (ne - ns + 1)) (h, col) = Inr (h1, c1)" and
    b: "parse_row_cells rdr refs specials row tds (h1, c1) = Inr (h', col')"
    by (auto simp: Let_def split: sum.splits)
  from place_cols_local [OF a Cons.prems(2)] Cons.IH [OF b Cons.prems(2)] show ?case by simp
qed

lemma parse_rows_from_local:
  "parse_rows_from rdr refs specials row trs h = Inr h' \<Longrightarrow> r < row \<Longrightarrow>
   row_of h' r = row_of h r"
proof (induction trs arbitrary: h row)
  case Nil
  then show ?case by simp
next
  case (Cons tr trs)
  from Cons.prems(1) obtain h1 c1 where
    a: "parse_row_cells rdr refs specials row (css rdr table_cell_css tr) (h, 0) = Inr (h1, c1)" and
    b: "parse_rows_from rdr refs specials (Suc row) trs h1 = Inr h'"
    by (auto split: sum.splits)
  from Cons.prems(2) have "r < Suc row" by simp
  from parse_row_cells_local [OF a Cons.prems(2)] Cons.IH [OF b this] show ?case by simp
qed

section \<open>From the grid to the rows returned\<close>

lemma keys_sorted_filter:
  assumes "\<forall>r. r \<in> fst ` set d \<longleftrightarrow> r < n \<and> P r"
  shows "dict_keys_sorted d = filter P [0..<n]"
proof -
  have "set (sort (remdups (map fst d))) = set (filter P [0..<n])"
    using assms by auto
  moreover have "sorted (sort (remdups (map fst d)))" "distinct (sort (remdups (map fst d)))"
    by simp_all
  moreover have "sorted (filter P [0..<n])" "distinct (filter P [0..<n])"
    by (simp_all add: sorted_wrt_filter)
  ultimately show ?thesis
    unfolding dict_keys_sorted_def by (metis sorted_distinct_set_unique)
qed

lemma keys_sorted_upt:
  assumes "fst ` set d = {0..<n}"
  shows "dict_keys_sorted d = [0..<n]"
proof -
  from assms have "\<forall>r. r \<in> fst ` set d \<longleftrightarrow> r < n \<and> True" by auto
  from keys_sorted_filter [OF this] show ?thesis by simp
qed

lemma row_cells_row_is:
  assumes "row_is h r vs"
  shows "row_cells h r = vs"
proof -
  let ?f = "map_of (row_of h r)"
  from assms have keys: "dict_keys_sorted (row_of h r) = [0..<length vs]"
    by (simp add: row_is_def occ_def keys_sorted_upt)
  from assms have val: "\<forall>c < length vs. ?f c = Some (vs ! c)"
    by (simp add: row_is_def grid_at_def)
  have "filter (\<lambda>c. ?f c \<noteq> None) [0..<length vs] = [0..<length vs]"
    using val by (simp add: filter_id_conv)
  then have "List.map_filter ?f [0..<length vs] = map (the \<circ> ?f) [0..<length vs]"
    by (simp add: List.map_filter_def)
  also have "\<dots> = map (\<lambda>c. vs ! c) [0..<length vs]"
    using val by (simp add: map_eq_conv)
  also have "\<dots> = vs" by (rule map_nth)
  finally show ?thesis by (simp add: row_cells_def keys)
qed

lemma grid_rows_of_rows:
  assumes "\<forall>r < length E. row_is h r (E ! r)"
    and "\<forall>r. r \<in> fst ` set h \<longleftrightarrow> r < length E \<and> E ! r \<noteq> []"
  shows "grid_rows h = filter (\<lambda>vs. vs \<noteq> []) E"
proof -
  have keys: "dict_keys_sorted h = filter (\<lambda>r. E ! r \<noteq> []) [0..<length E]"
    by (rule keys_sorted_filter [OF assms(2)])
  have "grid_rows h = map (row_cells h) (filter (\<lambda>r. E ! r \<noteq> []) [0..<length E])"
    by (simp add: grid_rows_def row_cells_def keys)
  also have "\<dots> = map (\<lambda>r. E ! r) (filter (\<lambda>r. E ! r \<noteq> []) [0..<length E])"
    using assms(1) by (simp add: map_eq_conv row_cells_row_is)
  also have "\<dots> = filter (\<lambda>vs. vs \<noteq> []) (map (\<lambda>r. E ! r) [0..<length E])"
    by (simp add: filter_map comp_def)
  also have "map (\<lambda>r. E ! r) [0..<length E] = E" by (rule map_nth)
  finally show ?thesis .
qed

lemma max_len_bound: "\<forall>r \<in> set rows. length r \<le> w \<Longrightarrow> max_len rows \<le> w"
  by (induction rows) (simp_all add: max_len_Nil max_len_Cons)

lemma pad_to_id: "m \<le> length r \<Longrightarrow> pad_to m r = r"
  by (simp add: pad_to_def)

lemma pad_to_nth: "c < length r \<Longrightarrow> pad_to m r ! c = r ! c"
  by (simp add: pad_to_def nth_append)

lemma pad_to_take: "take (length r) (pad_to m r) = r"
  by (simp add: pad_to_def)

lemma pad_to_truthy: "list_ex el_truthy r \<Longrightarrow> list_ex el_truthy (pad_to m r)"
  by (auto simp: pad_to_def list_ex_iff)

section \<open>Whole tables without span attributes\<close>

lemma row_is_cong: "row_of h' r = row_of h r \<Longrightarrow> row_is h' r vs = row_is h r vs"
  by (simp add: row_is_def occ_def grid_at_def)

lemma plain_row_fresh:
  assumes "\<forall>td \<in> set tds. no_span td \<and> parse_text rdr CellC refs specials td \<noteq> []"
    and "occ h row = {}"
  shows "\<exists>h'. parse_row_cells rdr refs specials row tds (h, 0) = Inr (h', length tds) \<and>
     (\<forall>r. r \<noteq> row \<longrightarrow> row_of h' r = row_of h r) \<and>
     row_is h' row (map (\<lambda>td. hd (parse_text rdr CellC refs specials td)) tds) \<and>
     (\<forall>r. r \<in> fst ` set h' \<longleftrightarrow> r \<in> fst ` set h \<or> (r = row \<and> tds \<noteq> []))"
proof -
  from assms(2) have free: "\<forall>c. 0 \<le> c \<and> c < 0 + length tds \<longrightarrow> c \<notin> occ h row" by simp
  from plain_row [OF assms(1) free] obtain h' where
    run: "parse_row_cells rdr refs specials row tds (h, 0) = Inr (h', 0 + length tds)" and
    rows: "\<forall>r. r \<noteq> row \<longrightarrow> row_of h' r = row_of h r" and
    oc: "occ h' row = occ h row \<union> {0..<0 + length tds}" and
    gr: "\<forall>c < length tds.
        grid_at h' row (0 + c) = Some (hd (parse_text rdr CellC refs specials (tds ! c)))" and
    ks: "\<forall>r. r \<in> fst ` set h' \<longleftrightarrow> r \<in> fst ` set h \<or> (r = row \<and> tds \<noteq> [])"
    by blast
  have "row_is h' row (map (\<lambda>td. hd (parse_text rdr CellC refs specials td)) tds)"
    using oc gr assms(2) by (simp add: row_is_def)
  with run rows ks show ?thesis by auto
qed

lemma plain_rows:
  assumes "\<forall>tr \<in> set trs. \<forall>td \<in> set (css rdr table_cell_css tr).
             no_span td \<and> parse_text rdr CellC refs specials td \<noteq> []"
    and "\<forall>r \<ge> row. r \<notin> fst ` set h"
  shows "\<exists>h'. parse_rows_from rdr refs specials row trs h = Inr h' \<and>
     rows_laid h h' row (map (converted_row rdr refs specials) trs)"
  using assms
proof (induction trs arbitrary: row h)
  case Nil
  then show ?case by (simp add: rows_laid_def)
next
  case (Cons tr trs)
  let ?tds = "css rdr table_cell_css tr"
  let ?E = "map (converted_row rdr refs specials) trs"
  from Cons.prems(2) have "\<not> dict_has h row" by (simp add: dict_has_def)
  then have "row_of h row = []" by (rule row_of_absent)
  then have empty: "occ h row = {}" by (simp add: occ_def)
  from Cons.prems(1)
  have tds: "\<forall>td \<in> set ?tds. no_span td \<and> parse_text rdr CellC refs specials td \<noteq> []"
    by simp
  from plain_row_fresh [OF tds empty] obtain h1 where
    run1: "parse_row_cells rdr refs specials row ?tds (h, 0) = Inr (h1, length ?tds)" and
    rows1: "\<forall>r. r \<noteq> row \<longrightarrow> row_of h1 r = row_of h r" and
    is1: "row_is h1 row (converted_row rdr refs specials tr)" and
    ks1: "\<forall>r. r \<in> fst ` set h1 \<longleftrightarrow> r \<in> fst ` set h \<or> (r = row \<and> ?tds \<noteq> [])"
    unfolding converted_row_def by blast
  from Cons.prems(1)
  have rest: "\<forall>tr \<in> set trs. \<forall>td \<in> set (css rdr table_cell_css tr).
             no_span td \<and> parse_text rdr CellC refs specials td \<noteq> []"
    by simp
  have absent1: "\<forall>r \<ge> Suc row. r \<notin> fst ` set h1"
  proof (intro allI impI)
    fix r assume "Suc row \<le> r"
    with Cons.prems(2) have "r \<notin> fst ` set h" "r \<noteq> row" by simp_all
    with ks1 show "r \<notin> fst ` set h1" by blast
  qed
  from Cons.IH [OF rest absent1] obtain h' where
    run: "parse_rows_from rdr refs specials (Suc row) trs h1 = Inr h'" and
    laid: "rows_laid h1 h' (Suc row) ?E"
    by blast
  from laid have l1: "\<forall>j < length ?E. row_is h' (Suc row + j) (?E ! j)"
    and l2: "\<forall>r. r \<in> fst ` set h' \<longleftrightarrow>
            r \<in> fst ` set h1 \<or> (\<exists>j < length ?E. r = Suc row + j \<and> ?E ! j \<noteq> [])"
    and l3: "\<forall>r < Suc row. row_of h' r = row_of h1 r"
    by (simp_all add: rows_laid_def)
  have a: "parse_rows_from rdr refs specials row (tr # trs) h = Inr h'"
    using run1 run by simp
  have b: "\<forall>j < length (converted_row rdr refs specials tr # ?E).
      row_is h' (row + j) ((converted_row rdr refs specials tr # ?E) ! j)"
  proof (intro allI impI)
    fix j assume j: "j < length (converted_row rdr refs specials tr # ?E)"
    show "row_is h' (row + j) ((converted_row rdr refs specials tr # ?E) ! j)"
    proof (cases j)
      case 0
      from l3 have "row_of h' row = row_of h1 row" by simp
      from row_is_cong [OF this] is1 0 show ?thesis by simp
    next
      case (Suc j')
      with j have "j' < length ?E" by simp
      with l1 have "row_is h' (Suc row + j') (?E ! j')" by blast
      with Suc show ?thesis by simp
    qed
  qed
  have ne: "converted_row rdr refs specials tr \<noteq> [] \<longleftrightarrow> ?tds \<noteq> []"
    by (simp add: converted_row_def)
  have c: "\<forall>r. r \<in> fst ` set h' \<longleftrightarrow>
      r \<in> fst ` set h \<or>
      (\<exists>j < length (converted_row rdr refs specials tr # ?E).
          r = row + j \<and> (converted_row rdr refs specials tr # ?E) ! j \<noteq> [])"
  proof
    fix r
    let ?R = "\<exists>j < length (converted_row rdr refs specials tr # ?E).
          r = row + j \<and> (converted_row rdr refs specials tr # ?E) ! j \<noteq> []"
    have split: "?R \<longleftrightarrow> (r = row \<and> ?tds \<noteq> []) \<or> (\<exists>j < length ?E. r = Suc row + j \<and> ?E ! j \<noteq> [])"
    proof
      assume ?R
      then obtain j where j: "j < length (converted_row rdr refs specials tr # ?E)"
        "r = row + j" "(converted_row rdr refs specials tr # ?E) ! j \<noteq> []" by blast
      show "(r = row \<and> ?tds \<noteq> []) \<or> (\<exists>j < length ?E. r = Suc row + j \<and> ?E ! j \<noteq> [])"
      proof (cases j)
        case 0
        with j ne show ?thesis by simp
      next
        case (Suc j')
        with j have "j' < length ?E" "r = Suc row + j'" "?E ! j' \<noteq> []" by simp_all
        then show ?thesis by blast
      qed
    next
      assume "(r = row \<and> ?tds \<noteq> []) \<or> (\<exists>j < length ?E. r = Suc row + j \<and> ?E ! j \<noteq> [])"
      then show ?R
      proof
        assume "r = row \<and> ?tds \<noteq> []"
        with ne have "0 < length (converted_row rdr refs specials tr # ?E)" "r = row + 0"
          "(converted_row rdr refs specials tr # ?E) ! 0 \<noteq> []" by simp_all
        then show ?R by blast
      next
        assume "\<exists>j < length ?E. r = Suc row + j \<and> ?E ! j \<noteq> []"
        then obtain j where j: "j < length ?E" "r = Suc row + j" "?E ! j \<noteq> []" by blast
        then have "Suc j < length (converted_row rdr refs specials tr # ?E)" "r = row + Suc j"
          "(converted_row rdr refs specials tr # ?E) ! Suc j \<noteq> []" by simp_all
        then show ?R by blast
      qed
    qed
    from l2 ks1 have "r \<in> fst ` set h' \<longleftrightarrow>
        (r \<in> fst ` set h \<or> (r = row \<and> ?tds \<noteq> [])) \<or>
        (\<exists>j < length ?E. r = Suc row + j \<and> ?E ! j \<noteq> [])"
      by blast
    with split show "r \<in> fst ` set h' \<longleftrightarrow> r \<in> fst ` set h \<or> ?R" by blast
  qed
  have d: "\<forall>r < row. row_of h' r = row_of h r"
    using l3 rows1 by simp
  have "rows_laid h h' row (map (converted_row rdr refs specials) (tr # trs))"
    unfolding rows_laid_def list.map by (intro conjI b c d)
  with a show ?case by blast
qed

lemma plain_table_grid:
  assumes "\<forall>tr \<in> set els. \<forall>td \<in> set (css rdr table_cell_css tr).
             no_span td \<and> parse_text rdr CellC refs specials td \<noteq> []"
  shows "\<exists>h. parse_table_grid rdr els refs specials = Inr h \<and>
     grid_rows h = filter (\<lambda>vs. vs \<noteq> []) (raw_layout rdr els refs specials)"
proof -
  let ?E = "raw_layout rdr els refs specials"
  have "\<forall>r \<ge> 0. r \<notin> fst ` set ([] :: hdict)" by simp
  from plain_rows [OF assms this] obtain h where
    run: "parse_rows_from rdr refs specials 0 els [] = Inr h" and
    laid: "rows_laid [] h 0 ?E"
    unfolding raw_layout_def by blast
  from laid have 1: "\<forall>r < length ?E. row_is h r (?E ! r)"
    by (simp add: rows_laid_def)
  from laid have 2: "\<forall>r. r \<in> fst ` set h \<longleftrightarrow> r < length ?E \<and> ?E ! r \<noteq> []"
    by (auto simp: rows_laid_def)
  from grid_rows_of_rows [OF 1 2] run show ?thesis
    by (simp add: parse_table_grid_def)
qed

text \<open>
  What \<^verbatim>\<open>_parse_table_rows\<close> returns for any table without span attributes: the raw
  layout without its empty rows, padded to the widest row, without the rows of
  empty cells only.
\<close>

lemma plain_table_rows:
  assumes "\<forall>tr \<in> set els. \<forall>td \<in> set (css rdr table_cell_css tr).
             no_span td \<and> parse_text rdr CellC refs specials td \<noteq> []"
  shows "parse_table_rows rdr els refs specials =
     Inr (filter (list_ex el_truthy)
            (map (pad_to (max_len (filter (\<lambda>vs. vs \<noteq> []) (raw_layout rdr els refs specials))))
               (filter (\<lambda>vs. vs \<noteq> []) (raw_layout rdr els refs specials))))"
proof -
  from plain_table_grid [OF assms] obtain h where
    "parse_table_grid rdr els refs specials = Inr h" and
    "grid_rows h = filter (\<lambda>vs. vs \<noteq> []) (raw_layout rdr els refs specials)"
    by blast
  then show ?thesis by (simp add: parse_table_rows_def finish_rows_eq)
qed

text \<open>
  C4, amended: a table without span attributes in which every row has the same
  number of cells and at least one non-empty cell comes back as its raw layout,
  cell for cell, with no padding.
\<close>

theorem plain_rectangular_table_is_raw_layout:
  assumes "\<forall>tr \<in> set els. \<forall>td \<in> set (css rdr table_cell_css tr).
             no_span td \<and> parse_text rdr CellC refs specials td \<noteq> []"
    and "\<forall>tr \<in> set els. length (css rdr table_cell_css tr) = w"
    and "\<forall>row \<in> set (raw_layout rdr els refs specials). list_ex el_truthy row"
  shows "parse_table_rows rdr els refs specials = Inr (raw_layout rdr els refs specials)"
proof -
  let ?E = "raw_layout rdr els refs specials"
  from assms(3) have ne: "\<forall>row \<in> set ?E. row \<noteq> []" by auto
  then have f1: "filter (\<lambda>vs. vs \<noteq> []) ?E = ?E" by (simp add: filter_id_conv)
  from assms(2) have len: "\<forall>row \<in> set ?E. length row = w"
    by (auto simp: raw_layout_def converted_row_def)
  then have "max_len ?E \<le> w" by (simp add: max_len_bound)
  with len have "\<forall>row \<in> set ?E. pad_to (max_len ?E) row = row"
    by (simp add: pad_to_id)
  then have f2: "map (pad_to (max_len ?E)) ?E = ?E" by (simp add: map_idI)
  from assms(3) have f3: "filter (list_ex el_truthy) ?E = ?E" by (simp add: filter_id_conv)
  from plain_table_rows [OF assms(1)] show ?thesis by (simp only: f1 f2 f3)
qed

theorem plain_rectangular_table_is_raw_layout_witness:
  "parse_table_rows (child_reader None)
     [table_row [entry [] ''a'', entry [] ''''], table_row [entry [] ''c'', entry [] ''d'']]
     [] [] =
   Inr [[Cell ''a'', Cell ''''], [Cell ''c'', Cell ''d'']] \<and>
   raw_layout (child_reader None)
     [table_row [entry [] ''a'', entry [] ''''], table_row [entry [] ''c'', entry [] ''d'']]
     [] [] =
   [[Cell ''a'', Cell ''''], [Cell ''c'', Cell ''d'']]"
proof -
  let ?r1 = "table_row [entry [] ''a'', entry [] '''']"
  let ?r2 = "table_row [entry [] ''c'', entry [] ''d'']"
  have c1: "css (child_reader None) table_cell_css ?r1 = [entry [] ''a'', entry [] '''']"
    by code_simp
  have c2: "css (child_reader None) table_cell_css ?r2 = [entry [] ''c'', entry [] ''d'']"
    by code_simp
  have p: "parse_text (child_reader None) CellC [] [] td \<noteq> []" for td
    by (simp add: child_reader_def)
  have n: "no_span (entry [] s)" for s
    by (simp add: no_span_def entry_def)
  have raw: "raw_layout (child_reader None) [?r1, ?r2] [] [] =
      [[Cell ''a'', Cell ''''], [Cell ''c'', Cell ''d'']]"
    by code_simp
  have 1: "\<forall>tr \<in> set [?r1, ?r2]. \<forall>td \<in> set (css (child_reader None) table_cell_css tr).
      no_span td \<and> parse_text (child_reader None) CellC [] [] td \<noteq> []"
    by (simp add: c1 c2 p n del: One_nat_def)
  have 2: "\<forall>tr \<in> set [?r1, ?r2]. length (css (child_reader None) table_cell_css tr) = 2"
    by (simp add: c1 c2)
  have t: "list_ex el_truthy [Cell ''a'', Cell '''']" "list_ex el_truthy [Cell ''c'', Cell ''d'']"
    by code_simp+
  have 3: "\<forall>row \<in> set (raw_layout (child_reader None) [?r1, ?r2] [] []). list_ex el_truthy row"
    unfolding raw using t by simp
  from plain_rectangular_table_is_raw_layout [OF 1 2 3] raw show ?thesis by simp
qed

text \<open>
  C4 as stated fails: rows of different length are padded, and a row of empty
  cells only is dropped, so the rows returned are not the raw layout.
\<close>

theorem plain_table_counterexample:
  "parse_table_rows (child_reader None)
     [table_row [entry [] ''a'', entry [] ''b''], table_row [entry [] ''c'']] [] [] =
     Inr [[Cell ''a'', Cell ''b''], [Cell ''c'', Cell '''']] \<and>
   raw_layout (child_reader None)
     [table_row [entry [] ''a'', entry [] ''b''], table_row [entry [] ''c'']] [] [] =
     [[Cell ''a'', Cell ''b''], [Cell ''c'']] \<and>
   parse_table_rows (child_reader None)
     [table_row [entry [] ''''], table_row [entry [] ''c'']] [] [] = Inr [[Cell ''c'']] \<and>
   raw_layout (child_reader None)
     [table_row [entry [] ''''], table_row [entry [] ''c'']] [] [] = [[Cell ''''], [Cell ''c'']]"
  by code_simp

end
